theory Spec2Isabelle
  imports Main "HOL-Library.Word" "HOL-Library.Stream"
begin

unbundle bit_operations_syntax

section \<open>Data model of \<^verbatim>\<open>vehicle.cpp\<close>\<close>

text \<open>
  Vehicles live in a pool and are addressed by their pool index. A \<^verbatim>\<open>Vehicle *\<close> of the
  source is a \<open>VehicleID option\<close> here (\<open>None\<close> is \<^verbatim>\<open>nullptr\<close>), and the pool is a
  partial map from indices to vehicle records. Following a pointer whose target is not
  in the pool has no defined behaviour in the source; the model reports it as the error
  \<open>InvalidPointer\<close>. A failed \<^verbatim>\<open>assert\<close> is the error \<open>AssertionFailed\<close>, and
  \<^verbatim>\<open>NOT_REACHED()\<close> is \<open>NotReached\<close>. The field \<^verbatim>\<open>index\<close> of a vehicle is the pool index
  under which the vehicle is stored, so the record has no field for it.
\<close>

type_synonym VehicleID = nat
type_synonym CompanyID = nat
type_synonym TileIndex = nat
type_synonym CargoType = nat

datatype error = AssertionFailed | InvalidPointer | NotReached | SignedOverflow

datatype VehicleType = VEH_TRAIN | VEH_ROAD | VEH_SHIP | VEH_AIRCRAFT | VEH_EFFECT | VEH_DISASTER

datatype VehState = Hidden | Stopped | Unclickable | DefaultPalette | TrainSlowing | Shadow
  | AircraftBroken | Crashed

datatype VehicleFlag = LoadingFinished | CargoUnloading | StopLoading

datatype OrderType = OT_NOTHING | OT_GOTO_STATION | OT_GOTO_DEPOT | OT_LOADING
  | OT_LEAVESTATION | OT_DUMMY | OT_GOTO_WAYPOINT | OT_CONDITIONAL | OT_IMPLICIT

datatype OrderDepotTypeFlag = ODTFB_SERVICE | ODTFB_PART_OF_ORDERS

datatype OrderDepotActionFlag = ODATFB_HALT | ODATFB_NEAREST_DEPOT | ODATFB_UNBUNCH

datatype OrderLoadFlag = OLFB_FULL_LOAD | OLF_FULL_LOAD_ANY_BIT | OLFB_NO_LOAD

text \<open>
  An order, as far as \<^verbatim>\<open>vehicle.cpp\<close> reads it: its type, the depot order type and depot
  action bit sets, the load type bits, the refit cargo (\<open>None\<close> when \<^verbatim>\<open>IsRefit()\<close> is
  false) and the destination.
\<close>

record Order =
  order_type :: OrderType
  depot_order_type :: "OrderDepotTypeFlag set"
  depot_action_type :: "OrderDepotActionFlag set"
  load_type :: "OrderLoadFlag set"
  refit_cargo :: "CargoType option"
  destination :: nat

text \<open>
  The address of a \<^verbatim>\<open>Vehicle *\<close> cell of the tile hash (a \<^verbatim>\<open>Vehicle **\<close> of the source): a
  bucket of \<^verbatim>\<open>_vehicle_tile_hash\<close>, or the \<^verbatim>\<open>hash_tile_next\<close> field of a vehicle.
\<close>

datatype hash_ref = Bucket nat | NextField VehicleID

record Vehicle =
  type :: VehicleType
  owner :: CompanyID
  vehstatus :: "VehState set"
  tile :: TileIndex
  dest_tile :: TileIndex
  hash_tile_next :: "VehicleID option"
  hash_tile_prev :: "hash_ref option"
  hash_tile_current :: "nat option"
  nextv :: "VehicleID option"
  previous :: "VehicleID option"
  first :: "VehicleID option"
  reliability :: "16 word"
  reliability_spd_dec :: "16 word"
  breakdown_ctr :: "8 word"
  breakdown_delay :: "8 word"
  breakdown_chance :: "8 word"
  breakdowns_since_last_service :: "8 word"
  date_of_last_service :: nat
  date_of_last_service_newgrf :: nat
  cur_speed :: "16 word"
  motion_counter :: "32 word"
  tick_counter :: "8 word"
  cached_cargo_age_period :: "16 word"
  cargo_age_counter :: "16 word"
  profit_this_year :: int
  current_order :: Order
  depot_unbunching_last_departure :: "64 word"
  depot_unbunching_next_departure :: "64 word"
  round_trip_time :: int
  last_loading_station :: "nat option"
  cargo_stored :: "32 word"
  cargo_cap :: "16 word"
  cargo_type :: CargoType
  vehicle_flags :: "VehicleFlag set"

type_synonym pool = "VehicleID \<rightharpoonup> Vehicle"

datatype GameMode = GM_MENU | GM_NORMAL | GM_EDITOR | GM_BOOTSTRAP

text \<open>
  The two game settings the breakdown roll reads:
  \<^verbatim>\<open>_settings_game.order.no_servicing_if_no_breakdowns\<close> and
  \<^verbatim>\<open>_settings_game.difficulty.vehicle_breakdowns\<close>.
\<close>

record GameSettings =
  no_servicing_if_no_breakdowns :: bool
  vehicle_breakdowns :: "8 word"

text \<open>
  The constructor \<^verbatim>\<open>Vehicle::Vehicle(type)\<close> for the vehicle the pool places at index \<open>i\<close>:
  \<^verbatim>\<open>first\<close> is the vehicle itself, \<^verbatim>\<open>cargo_age_counter\<close> is 1, the tile hash links are
  absent, and the other fields have their default member initialisers.
\<close>

definition Vehicle_new :: "VehicleID \<Rightarrow> VehicleType \<Rightarrow> Vehicle" where
  "Vehicle_new i t =
     \<lparr>type = t, owner = 0, vehstatus = {}, tile = 0, dest_tile = 0,
      hash_tile_next = None, hash_tile_prev = None, hash_tile_current = None,
      nextv = None, previous = None, first = Some i,
      reliability = 0, reliability_spd_dec = 0, breakdown_ctr = 0, breakdown_delay = 0,
      breakdown_chance = 0, breakdowns_since_last_service = 0, date_of_last_service = 0,
      date_of_last_service_newgrf = 0, cur_speed = 0, motion_counter = 0, tick_counter = 0,
      cached_cargo_age_period = 0, cargo_age_counter = 1, profit_this_year = 0,
      current_order = \<lparr>order_type = OT_NOTHING, depot_order_type = {}, depot_action_type = {},
                        load_type = {}, refit_cargo = None, destination = 0\<rparr>,
      depot_unbunching_last_departure = 0, depot_unbunching_next_departure = 0,
      round_trip_time = 0, last_loading_station = None,
      cargo_stored = 0, cargo_cap = 0, cargo_type = 0, vehicle_flags = {}\<rparr>"

text \<open>
  \<open>consist P p vs\<close>: walking \<^verbatim>\<open>Next()\<close> from the pointer \<open>p\<close> visits exactly the vehicles
  \<open>vs\<close>, in this order, and then reaches \<^verbatim>\<open>nullptr\<close>.
\<close>

fun consist :: "pool \<Rightarrow> VehicleID option \<Rightarrow> VehicleID list \<Rightarrow> bool" where
  "consist P p [] = (p = None)"
| "consist P p (x # xs) =
     (p = Some x \<and> (case P x of None \<Rightarrow> False | Some v \<Rightarrow> consist P (nextv v) xs))"

section \<open>CalcPercentVehicleFilled\<close>

text \<open>
  The stored cargo of a vehicle (\<^verbatim>\<open>cargo.StoredCount()\<close>) is a \<^verbatim>\<open>uint\<close> and its capacity
  (\<^verbatim>\<open>cargo_cap\<close>) a \<^verbatim>\<open>uint16_t\<close>. The locals \<^verbatim>\<open>count\<close>, \<^verbatim>\<open>max\<close>, \<^verbatim>\<open>cars\<close> and
  \<^verbatim>\<open>unloading\<close> are \<^verbatim>\<open>int\<close>: 32 bit words here, whose sums and products wrap around,
  read as two's complement where the source compares or divides them.

  Modelled from the spec: \<^verbatim>\<open>CeilDiv\<close> (core/math_func.hpp is not under src/), the division
  that rounds up, on \<^verbatim>\<open>uint\<close> arguments.
\<close>

definition CeilDiv :: "32 word \<Rightarrow> 32 word \<Rightarrow> 32 word" where
  "CeilDiv a b = (a + b - 1) div b"

text \<open>The division of two \<^verbatim>\<open>int\<close> values, which rounds towards zero.\<close>

definition int_div :: "int \<Rightarrow> int \<Rightarrow> int" where
  "int_div k l = sgn k * sgn l * (\<bar>k\<bar> div \<bar>l\<bar>)"

datatype PercentColour = STR_PERCENT_UP | STR_PERCENT_NONE | STR_PERCENT_DOWN | STR_PERCENT_UP_DOWN

text \<open>The locals of the counting loop: \<^verbatim>\<open>count\<close>, \<^verbatim>\<open>max\<close>, \<^verbatim>\<open>cars\<close>, \<^verbatim>\<open>unloading\<close>, \<^verbatim>\<open>loading\<close>.\<close>

record fill_locals =
  fl_count :: "32 word"
  fl_max :: "32 word"
  fl_cars :: "32 word"
  fl_unloading :: "32 word"
  fl_loading :: bool

text \<open>
  The body of the loop \<^verbatim>\<open>for (v = front; v != nullptr; v = v->Next())\<close>. The station is
  only read when a colour is asked for and the vehicle has capacity; \<open>st\<close> is the
  station's \<^verbatim>\<open>goods[c].HasRating()\<close>, \<open>None\<close> when \<^verbatim>\<open>Station::GetIfValid\<close> gave
  \<^verbatim>\<open>nullptr\<close>.
\<close>

definition fill_step :: "Vehicle \<Rightarrow> bool \<Rightarrow> (CargoType \<Rightarrow> bool) option \<Rightarrow> bool \<Rightarrow> bool
    \<Rightarrow> Vehicle \<Rightarrow> fill_locals \<Rightarrow> error + fill_locals" where
  "fill_step front want_colour st order_no_load order_full_load v a =
     (let a1 = a\<lparr>fl_count := fl_count a + cargo_stored v, fl_max := fl_max a + ucast (cargo_cap v)\<rparr>
      in if cargo_cap v \<noteq> 0 \<and> want_colour then
           (case st of
              None \<Rightarrow> Inl InvalidPointer
            | Some has_rating \<Rightarrow>
                Inr (a1\<lparr>fl_unloading := fl_unloading a1 + (if CargoUnloading \<in> vehicle_flags v then 1 else 0),
                        fl_loading := (fl_loading a1 \<or>
                           (\<not> order_no_load \<and> (order_full_load \<or> has_rating (cargo_type v)) \<and>
                            LoadingFinished \<notin> vehicle_flags front \<and> StopLoading \<notin> vehicle_flags front)),
                        fl_cars := fl_cars a1 + 1\<rparr>))
         else Inr a1)"

partial_function (option) fill_loop :: "pool \<Rightarrow> Vehicle \<Rightarrow> bool \<Rightarrow> (CargoType \<Rightarrow> bool) option
    \<Rightarrow> bool \<Rightarrow> bool \<Rightarrow> VehicleID option \<Rightarrow> fill_locals \<Rightarrow> (error + fill_locals) option" where
  "fill_loop P front want_colour st order_no_load order_full_load p a =
     (case p of
        None \<Rightarrow> Some (Inr a)
      | Some i \<Rightarrow>
          (case P i of
             None \<Rightarrow> Some (Inl InvalidPointer)
           | Some v \<Rightarrow>
               (case fill_step front want_colour st order_no_load order_full_load v a of
                  Inl e \<Rightarrow> Some (Inl e)
                | Inr a' \<Rightarrow> fill_loop P front want_colour st order_no_load order_full_load (nextv v) a')))"

definition percent_colour :: "fill_locals \<Rightarrow> PercentColour" where
  "percent_colour a =
     (if fl_unloading a = 0 \<and> fl_loading a then STR_PERCENT_UP
      else if fl_unloading a = 0 \<and> \<not> fl_loading a then STR_PERCENT_NONE
      else if fl_cars a = fl_unloading a \<or> \<not> fl_loading a then STR_PERCENT_DOWN
      else STR_PERCENT_UP_DOWN)"

text \<open>
  The \<^verbatim>\<open>uint8_t\<close> the function returns, from the totals of the loop: the comparison and
  the second division are on \<^verbatim>\<open>int\<close>, \<^verbatim>\<open>CeilDiv\<close> is on \<^verbatim>\<open>uint\<close>, and the result is
  narrowed to 8 bits.
\<close>

definition percent_of :: "32 word \<Rightarrow> 32 word \<Rightarrow> 8 word" where
  "percent_of cnt mx =
     (if mx = 0 then 100
      else if cnt * 2 <s mx then ucast (CeilDiv (cnt * 100) mx)
      else of_int (int_div (sint (cnt * 100)) (sint mx)))"

text \<open>
  \<^verbatim>\<open>CalcPercentVehicleFilled(front, colour)\<close>. \<open>want_colour\<close> says that \<^verbatim>\<open>colour\<close> is not
  \<^verbatim>\<open>nullptr\<close>; the result is the percentage and the colour written through the pointer.
  The outer \<open>option\<close> is \<open>None\<close> when the walk along \<^verbatim>\<open>Next()\<close> never ends.
\<close>

definition CalcPercentVehicleFilled :: "pool \<Rightarrow> VehicleID \<Rightarrow> bool \<Rightarrow> (CargoType \<Rightarrow> bool) option
    \<Rightarrow> (error + 8 word \<times> PercentColour option) option" where
  "CalcPercentVehicleFilled P front_id want_colour st =
     (case P front_id of
        None \<Rightarrow> Some (Inl InvalidPointer)
      | Some front \<Rightarrow>
          (let is_loading = (order_type (current_order front) = OT_LOADING) in
           if want_colour \<and> \<not> (st \<noteq> None \<and> is_loading) then Some (Inl AssertionFailed)
           else
             (let order_no_load = (is_loading \<and> OLFB_NO_LOAD \<in> load_type (current_order front));
                  order_full_load = (is_loading \<and> OLFB_FULL_LOAD \<in> load_type (current_order front))
              in case fill_loop P front want_colour st order_no_load order_full_load (Some front_id)
                        \<lparr>fl_count = 0, fl_max = 0, fl_cars = 0, fl_unloading = 0, fl_loading = False\<rparr> of
                   None \<Rightarrow> None
                 | Some (Inl e) \<Rightarrow> Some (Inl e)
                 | Some (Inr a) \<Rightarrow>
                     Some (Inr (percent_of (fl_count a) (fl_max a),
                                if want_colour then Some (percent_colour a) else None)))))"

text \<open>The total stored cargo and the total capacity of a list of vehicles of the pool.\<close>

definition stored_total :: "pool \<Rightarrow> VehicleID list \<Rightarrow> nat" where
  "stored_total P vs = sum_list (map (\<lambda>i. case P i of None \<Rightarrow> 0 | Some v \<Rightarrow> unat (cargo_stored v)) vs)"

definition capacity_total :: "pool \<Rightarrow> VehicleID list \<Rightarrow> nat" where
  "capacity_total P vs = sum_list (map (\<lambda>i. case P i of None \<Rightarrow> 0 | Some v \<Rightarrow> unat (cargo_cap v)) vs)"

text \<open>
  A train of \<open>n\<close> vehicles at the pool indices below \<open>n\<close>, each linked to the next one
  and each holding 65535 units of cargo in a capacity of 65535.
\<close>

definition full_train :: "nat \<Rightarrow> pool" where
  "full_train n i =
     (if i < n
      then Some ((Vehicle_new i VEH_TRAIN)\<lparr>nextv := (if Suc i < n then Some (Suc i) else None),
                   first := Some 0, cargo_stored := 65535, cargo_cap := 65535\<rparr>)
      else None)"

section \<open>FreeUnitIDGenerator\<close>

text \<open>
  The generator owns \<^verbatim>\<open>used_bitmap\<close>, a vector of \<^verbatim>\<open>BitmapStorage\<close> words. The width of
  \<^verbatim>\<open>BitmapStorage\<close> is declared in vehicle.h, which is not under src/; it is the type
  parameter \<open>'a\<close> here, and \<^verbatim>\<open>BITMAP_SIZE\<close> is its number of bits. A \<^verbatim>\<open>UnitID\<close> is a
  \<^verbatim>\<open>uint16_t\<close>.
\<close>

type_synonym UnitID = "16 word"

definition BITMAP_SIZE :: "'a::len word list \<Rightarrow> nat" where
  "BITMAP_SIZE bm = LENGTH('a)"

fun find_bit :: "nat \<Rightarrow> nat \<Rightarrow> 'a::len word \<Rightarrow> nat" where
  "find_bit 0 i w = i"
| "find_bit (Suc n) i w = (if bit w i then i else find_bit n (Suc i) w)"

text \<open>
  Modelled from the spec: \<^verbatim>\<open>FindFirstBit\<close> (core/bitmath_func.hpp is not under src/), the
  position of the least significant set bit of a word, 0 for the word 0.
\<close>

definition FindFirstBit :: "'a::len word \<Rightarrow> nat" where
  "FindFirstBit w = (if w = 0 then 0 else find_bit LENGTH('a) 0 w)"

text \<open>
  The loop of \<^verbatim>\<open>NextID\<close> over the words of the bitmap; \<open>d\<close> is
  \<^verbatim>\<open>std::distance(begin, it)\<close>. The value is the one computed in \<^verbatim>\<open>size_t\<close>, before the
  cast to \<^verbatim>\<open>UnitID\<close>.
\<close>

fun NextID_from :: "nat \<Rightarrow> 'a::len word list \<Rightarrow> nat" where
  "NextID_from d [] = d * LENGTH('a) + 1"
| "NextID_from d (w # ws) =
     (let available = NOT w
      in if available = 0 then NextID_from (d + 1) ws
         else d * LENGTH('a) + FindFirstBit available + 1)"

definition NextID :: "'a::len word list \<Rightarrow> UnitID" where
  "NextID bm = of_nat (NextID_from 0 bm)"

text \<open>\<^verbatim>\<open>UseID\<close>: the unit number returned and the bitmap after the call.\<close>

definition UseID :: "UnitID \<Rightarrow> 'a::len word list \<Rightarrow> UnitID \<times> 'a word list" where
  "UseID idx bm =
     (if idx = 0 \<or> idx = 0xFFFF then (idx, bm)
      else
        (let i = idx - 1;
             slot = unat i div LENGTH('a);
             bm1 = (if slot \<ge> length bm then bm @ replicate (slot + 1 - length bm) 0 else bm)
         in (i + 1, bm1[slot := set_bit (unat i mod LENGTH('a)) (bm1 ! slot)])))"

text \<open>\<^verbatim>\<open>ReleaseID\<close>: the bitmap after the call, or the failed assertion.\<close>

definition ReleaseID :: "UnitID \<Rightarrow> 'a::len word list \<Rightarrow> error + 'a word list" where
  "ReleaseID idx bm =
     (if idx = 0 \<or> idx = 0xFFFF then Inr bm
      else
        (let i = idx - 1;
             slot = unat i div LENGTH('a)
         in if \<not> slot < length bm then Inl AssertionFailed
            else Inr (bm[slot := unset_bit (unat i mod LENGTH('a)) (bm ! slot)])))"

text \<open>
  \<open>id_used bm n\<close>: the unit number \<open>n\<close> is marked used, that is, bit \<open>n - 1\<close> of the bitmap
  is set. Bits past the end of the vector are not set.
\<close>

definition bit_at :: "'a::len word list \<Rightarrow> nat \<Rightarrow> bool" where
  "bit_at bm p = (p div LENGTH('a) < length bm \<and> bit (bm ! (p div LENGTH('a))) (p mod LENGTH('a)))"

definition id_used :: "'a::len word list \<Rightarrow> nat \<Rightarrow> bool" where
  "id_used bm n = (0 < n \<and> bit_at bm (n - 1))"

section \<open>CheckVehicleBreakdown\<close>

definition breakdown_chance_table :: "8 word list" where
  "breakdown_chance_table =
     [  3,   3,   3,   3,   3,   3,   3,   3,
        4,   4,   5,   5,   6,   6,   7,   7,
        8,   8,   9,   9,  10,  10,  11,  11,
       12,  13,  13,  13,  13,  14,  15,  16,
       17,  19,  21,  25,  28,  31,  34,  37,
       40,  44,  48,  52,  56,  60,  64,  68,
       72,  80,  90, 100, 110, 120, 130, 140,
      150, 170, 190, 210, 230, 250, 250, 250]"

text \<open>
  Modelled from the spec: \<^verbatim>\<open>GB\<close> (core/bitmath_func.hpp is not under src/), the \<open>n\<close> bits of
  \<open>x\<close> starting at bit \<open>s\<close>: \<open>(x >> s) & (2^n - 1)\<close>.
\<close>

definition GB :: "'a::len word \<Rightarrow> nat \<Rightarrow> nat \<Rightarrow> 'a word" where
  "GB x s n = drop_bit s x AND mask n"

text \<open>
  Modelled from the spec: \<^verbatim>\<open>ClampTo<uint8_t>\<close> and \<^verbatim>\<open>ClampTo<uint16_t>\<close> (core/math_func.hpp
  is not under src/), the conversion that saturates at the bounds of the target type.
\<close>

definition ClampTo_uint8 :: "int \<Rightarrow> 8 word" where
  "ClampTo_uint8 x = (if x < 0 then 0 else if 255 < x then 255 else of_int x)"

definition ClampTo_uint16 :: "int \<Rightarrow> 16 word" where
  "ClampTo_uint16 x = (if x < 0 then 0 else if 65535 < x then 65535 else of_int x)"

text \<open>
  \<^verbatim>\<open>CheckVehicleBreakdown(v)\<close>. \<^verbatim>\<open>Chance16I\<close> (core/random_func.hpp is not under src/) is
  the parameter \<open>Chance16I\<close>; the global random stream is the stream \<open>rng\<close>, and a call
  of \<^verbatim>\<open>Random()\<close> takes its head. The locals \<^verbatim>\<open>rel\<close>, \<^verbatim>\<open>rel_old\<close> and \<^verbatim>\<open>chance\<close> are
  \<^verbatim>\<open>int\<close>. The window invalidation is not modelled.
\<close>

definition CheckVehicleBreakdown :: "(nat \<Rightarrow> nat \<Rightarrow> 32 word \<Rightarrow> bool) \<Rightarrow> GameSettings \<Rightarrow> GameMode
    \<Rightarrow> Vehicle \<Rightarrow> 32 word stream \<Rightarrow> Vehicle \<times> 32 word stream" where
  "CheckVehicleBreakdown Chance16I settings game_mode v rng =
     (let v1 = (if \<not> no_servicing_if_no_breakdowns settings \<or> vehicle_breakdowns settings \<noteq> 0
                then v\<lparr>reliability := of_int (max (uint (reliability v) - uint (reliability_spd_dec v)) 0)\<rparr>
                else v)
      in if breakdown_ctr v1 \<noteq> 0 \<or> Stopped \<in> vehstatus v1 \<or>
            vehicle_breakdowns settings < 1 \<or> cur_speed v1 < 5 \<or> game_mode = GM_MENU
         then (v1, rng)
         else
           (let r = shd rng;
                chance = uint (breakdown_chance v1) + 1;
                chance = (if Chance16I 1 25 r then chance + 25 else chance);
                v2 = v1\<lparr>breakdown_chance := ClampTo_uint8 chance\<rparr>;
                rel = uint (reliability v2);
                rel = (if type v2 = VEH_SHIP then rel + 0x6666 else rel);
                rel = (if vehicle_breakdowns settings = 1 then rel + 0x6666 else rel)
            in if breakdown_chance_table ! unat (drop_bit 10 (ClampTo_uint16 rel)) \<le> breakdown_chance v2
               then (v2\<lparr>breakdown_ctr := ucast (GB r 16 6 + 0x3F),
                        breakdown_delay := ucast (GB r 24 7 + 0x80),
                        breakdown_chance := 0\<rparr>, stl rng)
               else (v2, stl rng)))"

text \<open>
  The gate of the roll, and the reliability the table is indexed with: the vehicle's
  reliability plus \<open>0x6666\<close> for ships and plus \<open>0x6666\<close> for reduced breakdowns.
\<close>

definition breakdown_gate :: "GameSettings \<Rightarrow> GameMode \<Rightarrow> Vehicle \<Rightarrow> bool" where
  "breakdown_gate settings game_mode v =
     (breakdown_ctr v = 0 \<and> Stopped \<notin> vehstatus v \<and> 1 \<le> vehicle_breakdowns settings \<and>
      5 \<le> cur_speed v \<and> game_mode \<noteq> GM_MENU)"

definition adjusted_reliability :: "GameSettings \<Rightarrow> VehicleType \<Rightarrow> nat \<Rightarrow> nat" where
  "adjusted_reliability settings t rel =
     rel + (if t = VEH_SHIP then 0x6666 else 0) + (if vehicle_breakdowns settings = 1 then 0x6666 else 0)"

section \<open>The world: globals, collaborators and the event log\<close>

text \<open>
  The string identifiers \<^verbatim>\<open>vehicle.cpp\<close> compares and passes on (table/strings.h is not
  under src/; the named identifiers are distinct entries of the string table).
  \<open>STR_NEWS_TRAIN_IS_WAITING t\<close> is \<^verbatim>\<open>STR_NEWS_TRAIN_IS_WAITING + v->type\<close>.
\<close>

datatype StringID = INVALID_STRING_ID
  | STR_ERROR_AUTOREPLACE_NOTHING_TO_DO
  | STR_ERROR_NOT_ENOUGH_CASH_REQUIRES_CURRENCY
  | STR_ERROR_AUTOREPLACE_MONEY_LIMIT
  | STR_ERROR_TRAIN_TOO_LONG_AFTER_REPLACEMENT
  | STR_NEWS_VEHICLE_AUTORENEW_FAILED
  | STR_NEWS_ORDER_REFIT_FAILED
  | STR_NEWS_TRAIN_IS_WAITING VehicleType
  | STR_OTHER nat

text \<open>The result of a command: \<^verbatim>\<open>Succeeded()\<close>, \<^verbatim>\<open>GetCost()\<close> and \<^verbatim>\<open>GetErrorMessage()\<close>.\<close>

datatype CommandCost = CommandCost (Succeeded: bool) (GetCost: int) (GetErrorMessage: StringID)

datatype AdviceType = AutorenewFailed | RefitFailed | VehicleWaiting

datatype SoundEffect = VSE_RUNNING | VSE_RUNNING_16 | VSE_STOPPED_16

text \<open>
  The calls that leave \<^verbatim>\<open>vehicle.cpp\<close>, in the order they are made: the movement tick of
  a vehicle, the autoreplace command (with the current company and the owner of the
  vehicle at the time of the call), the refit command, an advice news item (type,
  string, string parameter, vehicle), money taken from the current company, the cost
  animation, the AI event for a vehicle waiting in a depot, the bookkeeping of a reached
  order (\<^verbatim>\<open>DeleteUnreachedImplicitOrders\<close>, \<^verbatim>\<open>UpdateVehicleTimetable\<close>,
  \<^verbatim>\<open>IncrementImplicitOrderIndex\<close>), a vehicle sound and the ageing of cargo. Window
  invalidation, sprite updates and performance counters are not recorded.
\<close>

datatype event = EvTick VehicleID
  | EvAutoreplace VehicleID CompanyID CompanyID
  | EvRefit VehicleID CompanyID
  | EvAdviceNews AdviceType StringID "StringID option" VehicleID
  | EvSubtractMoney CompanyID int
  | EvCostAnimation int
  | EvAIVehicleWaitingInDepot CompanyID VehicleID
  | EvOrdersAdvanced VehicleID
  | EvSound VehicleID SoundEffect
  | EvAgeCargo VehicleID

text \<open>
  The global state: the vehicle pool, \<^verbatim>\<open>_vehicle_tile_hash\<close>,
  \<^verbatim>\<open>_vehicles_to_autoreplace\<close>, \<^verbatim>\<open>_current_company\<close>, \<^verbatim>\<open>_local_company\<close>,
  \<^verbatim>\<open>TimerGameTick::counter\<close>, the two dates, the game settings, and the log of events.
\<close>

record world =
  vehicles :: pool
  vehicle_tile_hash :: "nat \<Rightarrow> VehicleID option"
  vehicles_to_autoreplace :: "VehicleID \<rightharpoonup> bool"
  current_company :: CompanyID
  local_company :: CompanyID
  TimerGameTick_counter :: "64 word"
  TimerGameEconomy_date :: nat
  TimerGameCalendar_date :: nat
  settings_game :: GameSettings
  log :: "event list"

text \<open>
  The collaborators, whose code is not in \<^verbatim>\<open>vehicle.cpp\<close>: the movement tick of a vehicle,
  the two commands, the two passes that run before the vehicles are ticked, the
  predicates of the vehicle subclasses, the engine table, the order list of a vehicle
  (\<^verbatim>\<open>GetOrder(cur_real_order_index)\<close>), the station index of a tile, the company setting
  \<^verbatim>\<open>engine_renew_money\<close>, and the capacity of the vehicle pool. A collaborator may change
  the world in any way; it cannot change the log, which the model keeps itself.
\<close>

record env =
  Tick :: "VehicleID \<Rightarrow> world \<Rightarrow> bool \<times> world"
  CmdAutoreplaceVehicle :: "VehicleID \<Rightarrow> world \<Rightarrow> CommandCost \<times> world"
  CmdRefitVehicle :: "VehicleID \<Rightarrow> CargoType \<Rightarrow> world \<Rightarrow> CommandCost \<times> world"
  RunEconomyVehicleDayProc :: "world \<Rightarrow> world"
  LoadUnloadStations :: "world \<Rightarrow> world"
  IsEngine :: "Vehicle \<Rightarrow> bool"
  IsFrontEngine :: "Vehicle \<Rightarrow> bool"
  IsNormalAircraft :: "Vehicle \<Rightarrow> bool"
  HasEngineType :: "Vehicle \<Rightarrow> bool"
  engine_reliability :: "Vehicle \<Rightarrow> 16 word"
  GetRealOrder :: "VehicleID \<Rightarrow> Order option"
  GetStationIndex :: "TileIndex \<Rightarrow> nat"
  engine_renew_money :: "CompanyID \<Rightarrow> int"
  MAX_SIZE :: nat

definition put_vehicle :: "VehicleID \<Rightarrow> Vehicle \<Rightarrow> world \<Rightarrow> world" where
  "put_vehicle i v s = s\<lparr>vehicles := (vehicles s)(i \<mapsto> v)\<rparr>"

definition emit :: "event list \<Rightarrow> world \<Rightarrow> world" where
  "emit es s = s\<lparr>log := log s @ es\<rparr>"

text \<open>A call of a collaborator: the world it returns, with the log of the model.\<close>

definition call :: "(world \<Rightarrow> 'a \<times> world) \<Rightarrow> world \<Rightarrow> 'a \<times> world" where
  "call f s = (fst (f s), (snd (f s))\<lparr>log := log s\<rparr>)"

section \<open>VehicleServiceInDepot and VehicleEnteredDepotThisTick\<close>

text \<open>The body of the \<^verbatim>\<open>do ... while\<close> loop of \<^verbatim>\<open>VehicleServiceInDepot\<close> for one vehicle.\<close>

definition service_vehicle :: "env \<Rightarrow> world \<Rightarrow> Vehicle \<Rightarrow> Vehicle" where
  "service_vehicle e s v =
     (let v1 = v\<lparr>date_of_last_service := TimerGameEconomy_date s,
                  date_of_last_service_newgrf := TimerGameCalendar_date s,
                  breakdowns_since_last_service := 0,
                  reliability := engine_reliability e v,
                  breakdown_chance := breakdown_chance v div 4\<rparr>
      in if vehicle_breakdowns (settings_game s) = 1 then v1\<lparr>breakdown_chance := 0\<rparr> else v1)"

text \<open>
  \<^verbatim>\<open>VehicleServiceInDepot(v)\<close>: the loop services \<open>i\<close>, then goes on with \<^verbatim>\<open>Next()\<close> while
  there is a next vehicle and it has an engine type. \<open>None\<close>: the loop never ends.
\<close>

partial_function (option) VehicleServiceInDepot :: "env \<Rightarrow> VehicleID \<Rightarrow> world \<Rightarrow> (error + world) option" where
  "VehicleServiceInDepot e i s =
     (case vehicles s i of
        None \<Rightarrow> Some (Inl InvalidPointer)
      | Some v \<Rightarrow>
          (let s1 = put_vehicle i (service_vehicle e s v) s
           in case nextv v of
                None \<Rightarrow> Some (Inr s1)
              | Some n \<Rightarrow>
                  (case vehicles s1 n of
                     None \<Rightarrow> Some (Inl InvalidPointer)
                   | Some u \<Rightarrow> if HasEngineType e u then VehicleServiceInDepot e n s1 else Some (Inr s1))))"

definition VehicleEnteredDepotThisTick :: "VehicleID \<Rightarrow> world \<Rightarrow> error + world" where
  "VehicleEnteredDepotThisTick i s =
     (case vehicles s i of
        None \<Rightarrow> Inl InvalidPointer
      | Some v \<Rightarrow>
          Inr (put_vehicle i (v\<lparr>vehstatus := insert Stopped (vehstatus v)\<rparr>)
                 (s\<lparr>vehicles_to_autoreplace := (vehicles_to_autoreplace s)(i \<mapsto> Stopped \<notin> vehstatus v)\<rparr>)))"

section \<open>VehicleEnterDepot\<close>

text \<open>
  Modelled from the spec: \<^verbatim>\<open>Clamp\<close> (core/math_func.hpp is not under src/), the value
  brought into the interval from \<open>lo\<close> to \<open>hi\<close>; the function asserts \<open>lo \<le> hi\<close>.
\<close>

definition Clamp :: "int \<Rightarrow> int \<Rightarrow> int \<Rightarrow> error + int" where
  "Clamp a lo hi =
     (if \<not> lo \<le> hi then Inl AssertionFailed
      else if a \<le> lo then Inr lo else if a \<ge> hi then Inr hi else Inr a)"

text \<open>
  \<^verbatim>\<open>TimerGameTick::Ticks\<close> is \<^verbatim>\<open>int32_t\<close> and \<^verbatim>\<open>TimerGameTick::TickCounter\<close> is
  \<^verbatim>\<open>uint64_t\<close> (timer/timer_game_tick.h is not under src/). The difference of two tick
  counters is taken in 64 bits and narrowed to 32 bits; division by 2 rounds towards
  zero; doubling a value outside the range of \<^verbatim>\<open>int32_t\<close> is an overflow.
\<close>

definition measured_round_trip :: "64 word \<Rightarrow> 64 word \<Rightarrow> int" where
  "measured_round_trip counter last_departure = sint (ucast (counter - last_departure) :: 32 word)"

definition half_Ticks :: "int \<Rightarrow> int" where
  "half_Ticks t = (if t < 0 then - ((- t) div 2) else t div 2)"

definition double_Ticks :: "int \<Rightarrow> error + int" where
  "double_Ticks t = (if t * 2 < - (2 ^ 31) \<or> 2 ^ 31 \<le> t * 2 then Inl SignedOverflow else Inr (t * 2))"

text \<open>
  The block of \<^verbatim>\<open>VehicleEnterDepot\<close> that records the round trip duration, for the
  vehicle \<open>v\<close> at the tick \<open>counter\<close>.
\<close>

definition record_round_trip :: "64 word \<Rightarrow> Vehicle \<Rightarrow> error + Vehicle" where
  "record_round_trip counter v =
     (if ODATFB_UNBUNCH \<in> depot_action_type (current_order v) \<and> depot_unbunching_last_departure v > 0
      then
        (let measured = measured_round_trip counter (depot_unbunching_last_departure v)
         in if round_trip_time v = 0 then Inr (v\<lparr>round_trip_time := measured\<rparr>)
            else
              (case double_Ticks (round_trip_time v) of
                 Inl err \<Rightarrow> Inl err
               | Inr hi \<Rightarrow>
                   (case Clamp measured (half_Ticks (round_trip_time v)) hi of
                      Inl err \<Rightarrow> Inl err
                    | Inr t \<Rightarrow> Inr (v\<lparr>round_trip_time := t\<rparr>))))
      else Inr v)"

text \<open>
  Modelled from the spec: \<^verbatim>\<open>ResetDepotUnbunching\<close> (vehicle_base.h is not under src/), which
  clears the unbunching data of a vehicle.
\<close>

definition ResetDepotUnbunching :: "Vehicle \<Rightarrow> Vehicle" where
  "ResetDepotUnbunching v =
     v\<lparr>depot_unbunching_last_departure := 0, depot_unbunching_next_departure := 0,
       round_trip_time := 0\<rparr>"

text \<open>
  Modelled from the spec: \<^verbatim>\<open>Order::MakeDummy\<close> (order_base.h is not under src/), which
  turns an order into a dummy order without flags.
\<close>

definition MakeDummy :: "Order \<Rightarrow> Order" where
  "MakeDummy ord = \<lparr>order_type = OT_DUMMY, depot_order_type = {}, depot_action_type = {},
                      load_type = {}, refit_cargo = None, destination = 0\<rparr>"

text \<open>
  The test "we are heading for another depot, keep driving" on the vehicle \<open>v\<close> with
  pool index \<open>i\<close> that has entered the depot on its tile.
\<close>

definition heading_for_another_depot :: "env \<Rightarrow> VehicleID \<Rightarrow> Vehicle \<Rightarrow> bool" where
  "heading_for_another_depot e i v =
     (ODTFB_PART_OF_ORDERS \<in> depot_order_type (current_order v) \<and>
      (case GetRealOrder e i of
         None \<Rightarrow> False
       | Some real_order \<Rightarrow> ODATFB_NEAREST_DEPOT \<notin> depot_action_type real_order) \<and>
      (if type v = VEH_AIRCRAFT then destination (current_order v) \<noteq> GetStationIndex e (tile v)
       else dest_tile v \<noteq> tile v))"

text \<open>
  The refit of a depot order: the command runs with the owner as current company, and
  the current company is restored afterwards. A failed refit cancels the restart of the
  vehicle and, for the local company, produces the advice; a refit with a cost is taken
  from the profit.
\<close>

definition depot_refit :: "env \<Rightarrow> VehicleID \<Rightarrow> world \<Rightarrow> error + world" where
  "depot_refit e i s =
     (case vehicles s i of
        None \<Rightarrow> Inl InvalidPointer
      | Some v \<Rightarrow>
          (case refit_cargo (current_order v) of
             None \<Rightarrow> Inr s
           | Some cargo \<Rightarrow>
               (let (cost, s1) = call (CmdRefitVehicle e i cargo) (s\<lparr>current_company := owner v\<rparr>);
                    s2 = emit [EvRefit i (owner v)] (s1\<lparr>current_company := current_company s\<rparr>)
                in case vehicles s2 i of
                     None \<Rightarrow> Inl InvalidPointer
                   | Some v2 \<Rightarrow>
                       if \<not> Succeeded cost then
                         (let s3 = s2\<lparr>vehicles_to_autoreplace := (vehicles_to_autoreplace s2)(i \<mapsto> False)\<rparr>
                          in if owner v2 = local_company s3
                             then Inr (emit [EvAdviceNews RefitFailed STR_NEWS_ORDER_REFIT_FAILED None i] s3)
                             else Inr s3)
                       else if GetCost cost \<noteq> 0 then
                         (let s3 = put_vehicle i (v2\<lparr>profit_this_year := profit_this_year v2 - GetCost cost * 256\<rparr>) s2
                          in if owner v2 = local_company s3
                             then Inr (emit [EvCostAnimation (GetCost cost)] s3)
                             else Inr s3)
                       else Inr s2)))"

text \<open>The branch for an order that halts the vehicle in the depot.\<close>

definition depot_halt :: "VehicleID \<Rightarrow> world \<Rightarrow> error + world" where
  "depot_halt i s =
     (case vehicles s i of
        None \<Rightarrow> Inl InvalidPointer
      | Some v \<Rightarrow>
          if ODATFB_HALT \<in> depot_action_type (current_order v) then
            (let s1 = s\<lparr>vehicles_to_autoreplace := (vehicles_to_autoreplace s)(i \<mapsto> False)\<rparr>;
                 s2 = put_vehicle i (ResetDepotUnbunching (v\<lparr>last_loading_station := None\<rparr>)) s1;
                 s3 = (if owner v = local_company s2
                       then emit [EvAdviceNews VehicleWaiting (STR_NEWS_TRAIN_IS_WAITING (type v)) None i] s2
                       else s2)
             in Inr (emit [EvAIVehicleWaitingInDepot (owner v) i] s3))
          else Inr s)"

text \<open>
  The part of \<^verbatim>\<open>VehicleEnterDepot\<close> under \<^verbatim>\<open>if (v->current_order.IsType(OT_GOTO_DEPOT))\<close>.
\<close>

definition depot_order_reached :: "env \<Rightarrow> VehicleID \<Rightarrow> world \<Rightarrow> error + world" where
  "depot_order_reached e i s =
     (case vehicles s i of
        None \<Rightarrow> Inl InvalidPointer
      | Some v \<Rightarrow>
          if heading_for_another_depot e i v then Inr s
          else
            (case depot_refit e i s of
               Inl err \<Rightarrow> Inl err
             | Inr s1 \<Rightarrow>
                 (case vehicles s1 i of
                    None \<Rightarrow> Inl InvalidPointer
                  | Some v1 \<Rightarrow>
                      (let s2 = (if ODTFB_PART_OF_ORDERS \<in> depot_order_type (current_order v1)
                                 then emit [EvOrdersAdvanced i] s1 else s1)
                       in case depot_halt i s2 of
                            Inl err \<Rightarrow> Inl err
                          | Inr s3 \<Rightarrow>
                              (case vehicles s3 i of
                                 None \<Rightarrow> Inl InvalidPointer
                               | Some v3 \<Rightarrow>
                                   (case record_round_trip (TimerGameTick_counter s3) v3 of
                                      Inl err \<Rightarrow> Inl err
                                    | Inr v4 \<Rightarrow>
                                        Inr (put_vehicle i (v4\<lparr>current_order := MakeDummy (current_order v4)\<rparr>) s3)))))))"

text \<open>
  \<^verbatim>\<open>VehicleEnterDepot(v)\<close> up to the test of the current order: the vehicle is hidden and
  halted, serviced, and recorded as having entered a depot this tick. The type specific
  part at the start only touches windows and fields of the subclasses, which are not
  modelled; for a vehicle that is no train, road vehicle, ship or aircraft the source
  reaches \<^verbatim>\<open>NOT_REACHED()\<close>.
\<close>

definition depot_arrival :: "env \<Rightarrow> VehicleID \<Rightarrow> world \<Rightarrow> (error + world) option" where
  "depot_arrival e i s =
     (case vehicles s i of
        None \<Rightarrow> Some (Inl InvalidPointer)
      | Some v \<Rightarrow>
          if first v \<noteq> Some i then Some (Inl AssertionFailed)
          else if type v = VEH_EFFECT \<or> type v = VEH_DISASTER then Some (Inl NotReached)
          else
            (case VehicleServiceInDepot e i (put_vehicle i (v\<lparr>vehstatus := insert Hidden (vehstatus v), cur_speed := 0\<rparr>) s) of
               None \<Rightarrow> None
             | Some (Inl err) \<Rightarrow> Some (Inl err)
             | Some (Inr s1) \<Rightarrow> Some (VehicleEnteredDepotThisTick i s1)))"

text \<open>\<^verbatim>\<open>VehicleEnterDepot(v)\<close>: the arrival, and then the part for a depot order.\<close>

definition VehicleEnterDepot :: "env \<Rightarrow> VehicleID \<Rightarrow> world \<Rightarrow> (error + world) option" where
  "VehicleEnterDepot e i s =
     (case depot_arrival e i s of
        None \<Rightarrow> None
      | Some (Inl err) \<Rightarrow> Some (Inl err)
      | Some (Inr s2) \<Rightarrow>
          (case vehicles s2 i of
             None \<Rightarrow> Some (Inl InvalidPointer)
           | Some v2 \<Rightarrow>
               if order_type (current_order v2) = OT_GOTO_DEPOT
               then Some (depot_order_reached e i s2)
               else Some (Inr s2)))"

section \<open>CallVehicleTicks\<close>

text \<open>
  The part of the loop body after a movement tick that reported the vehicle alive: cargo
  ageing, the motion counter and the running sounds, for trains, road vehicles, aircraft
  and ships.
\<close>

definition after_tick :: "env \<Rightarrow> VehicleID \<Rightarrow> world \<Rightarrow> error + world" where
  "after_tick e i s =
     (case vehicles s i of
        None \<Rightarrow> Inl InvalidPointer
      | Some v \<Rightarrow>
          if type v = VEH_EFFECT \<or> type v = VEH_DISASTER then Inr s
          else
            (case first v of
               None \<Rightarrow> Inl InvalidPointer
             | Some f \<Rightarrow>
                 (case vehicles s f of
                    None \<Rightarrow> Inl InvalidPointer
                  | Some front \<Rightarrow>
                      (let aged = (cached_cargo_age_period v \<noteq> 0 \<and>
                                   min (cargo_age_counter v) (cached_cargo_age_period v) - 1 = 0);
                           v1 = (if cached_cargo_age_period v \<noteq> 0
                                 then (if aged then v\<lparr>cargo_age_counter := cached_cargo_age_period v\<rparr>
                                       else v\<lparr>cargo_age_counter :=
                                               min (cargo_age_counter v) (cached_cargo_age_period v) - 1\<rparr>)
                                 else v);
                           s1 = emit (if aged then [EvAgeCargo i] else []) (put_vehicle i v1 s)
                       in if Crashed \<in> vehstatus front then Inr s1
                          else if Hidden \<in> vehstatus v1 then Inr s1
                          else if Stopped \<in> vehstatus front \<and> (type front \<noteq> VEH_TRAIN \<or> cur_speed front = 0)
                          then Inr s1
                          else
                            (let v2 = v1\<lparr>motion_counter := motion_counter v1 + ucast (cur_speed front)\<rparr>;
                                 s2 = put_vehicle i v2 s1
                             in if (type v2 = VEH_TRAIN \<and> \<not> IsEngine e v2) \<or>
                                   (type v2 = VEH_ROAD \<and> \<not> IsFrontEngine e v2) \<or>
                                   (type v2 = VEH_AIRCRAFT \<and> \<not> IsNormalAircraft e v2)
                                then Inr s2
                                else
                                  Inr (emit
                                    ((if GB (motion_counter v2) 0 8 < ucast (cur_speed front)
                                      then [EvSound i VSE_RUNNING] else []) @
                                     (if GB (tick_counter v2) 0 4 = 0
                                      then [EvSound i
                                              (if cur_speed front > 0 \<and> Stopped \<notin> vehstatus front \<and>
                                                  TrainSlowing \<notin> vehstatus front
                                               then VSE_RUNNING_16 else VSE_STOPPED_16)]
                                      else [])) s2))))))"

text \<open>
  The body of \<^verbatim>\<open>for (Vehicle *v : Vehicle::Iterate())\<close> for the vehicle at pool index \<open>i\<close>.
  The two assertions compare \<^verbatim>\<open>Vehicle::Get(vehicle_index)\<close> with \<^verbatim>\<open>nullptr\<close> and with
  \<open>v\<close>.
\<close>

definition tick_vehicle :: "env \<Rightarrow> VehicleID \<Rightarrow> world \<Rightarrow> error + world" where
  "tick_vehicle e i s =
     (let (alive, s1) = call (Tick e i) s;
          s2 = emit [EvTick i] s1
      in if \<not> alive then (if vehicles s2 i \<noteq> None then Inl AssertionFailed else Inr s2)
         else if vehicles s2 i = None then Inl AssertionFailed
         else after_tick e i s2)"

text \<open>
  Modelled from the spec: the iteration over the pool (core/pool_type.hpp is not under
  src/) goes through the pool indices in increasing order and visits the index \<open>i\<close>
  when a vehicle is stored there at the time the iteration reaches it.
\<close>

fun iterate_vehicles :: "env \<Rightarrow> VehicleID list \<Rightarrow> world \<Rightarrow> error + world" where
  "iterate_vehicles e [] s = Inr s"
| "iterate_vehicles e (i # is) s =
     (case vehicles s i of
        None \<Rightarrow> iterate_vehicles e is s
      | Some v \<Rightarrow>
          (case tick_vehicle e i s of
             Inl err \<Rightarrow> Inl err
           | Inr s1 \<Rightarrow> iterate_vehicles e is s1))"

text \<open>
  The state in which the autoreplace command of the vehicle \<open>i\<close> with the recorded flag
  \<open>b\<close> is called: the current company is the owner, the vehicle is started again when
  the flag is set, and the renew money has been taken from the company.
\<close>

definition autoreplace_prepare :: "env \<Rightarrow> VehicleID \<Rightarrow> bool \<Rightarrow> Vehicle \<Rightarrow> world \<Rightarrow> world" where
  "autoreplace_prepare e i b v s =
     (let s1 = s\<lparr>current_company := owner v\<rparr>;
          s2 = (if b then put_vehicle i (v\<lparr>vehstatus := vehstatus v - {Stopped}\<rparr>) s1 else s1)
      in emit [EvSubtractMoney (current_company s2) (engine_renew_money e (current_company s2))] s2)"

text \<open>
  What is reported after the autoreplace command of vehicle \<open>i\<close> returned \<open>res\<close>.
\<close>

definition autoreplace_report :: "VehicleID \<Rightarrow> CommandCost \<Rightarrow> world \<Rightarrow> world" where
  "autoreplace_report i res s =
     (if current_company s \<noteq> local_company s then s
      else if Succeeded res then emit [EvCostAnimation (GetCost res)] s
      else if GetErrorMessage res = STR_ERROR_AUTOREPLACE_NOTHING_TO_DO \<or>
              GetErrorMessage res = INVALID_STRING_ID then s
      else
        (let error_message = (if GetErrorMessage res = STR_ERROR_NOT_ENOUGH_CASH_REQUIRES_CURRENCY
                              then STR_ERROR_AUTOREPLACE_MONEY_LIMIT else GetErrorMessage res)
         in if error_message = STR_ERROR_TRAIN_TOO_LONG_AFTER_REPLACEMENT
            then emit [EvAdviceNews AutorenewFailed error_message None i] s
            else emit [EvAdviceNews AutorenewFailed STR_NEWS_VEHICLE_AUTORENEW_FAILED (Some error_message) i] s))"

text \<open>
  The body of \<^verbatim>\<open>for (auto &it : _vehicles_to_autoreplace)\<close> for the entry of vehicle \<open>i\<close>
  with the flag \<open>b\<close>.
\<close>

definition autoreplace_entry :: "env \<Rightarrow> VehicleID \<Rightarrow> bool \<Rightarrow> world \<Rightarrow> error + world" where
  "autoreplace_entry e i b s =
     (case vehicles s i of
        None \<Rightarrow> Inl InvalidPointer
      | Some v \<Rightarrow>
          (let s1 = autoreplace_prepare e i b v s;
               (res, s2) = call (CmdAutoreplaceVehicle e i) s1;
               s3 = emit [EvAutoreplace i (current_company s1) (owner v),
                          EvSubtractMoney (current_company s2) (- engine_renew_money e (current_company s1))] s2
           in Inr (autoreplace_report i res s3)))"

text \<open>
  The map is a \<^verbatim>\<open>std::map\<close> keyed by the pool index: the loop goes through the indices in
  increasing order and handles the index \<open>i\<close> when the map has an entry for it.
\<close>

fun autoreplace_pass :: "env \<Rightarrow> VehicleID list \<Rightarrow> world \<Rightarrow> error + world" where
  "autoreplace_pass e [] s = Inr s"
| "autoreplace_pass e (i # is) s =
     (case vehicles_to_autoreplace s i of
        None \<Rightarrow> autoreplace_pass e is s
      | Some b \<Rightarrow>
          (case autoreplace_entry e i b s of
             Inl err \<Rightarrow> Inl err
           | Inr s1 \<Rightarrow> autoreplace_pass e is s1))"

text \<open>
  The three parts of \<^verbatim>\<open>CallVehicleTicks\<close>: what runs before the vehicles are ticked, the
  loop over the vehicles, and the loop over the autoreplace map between the backup and
  the restoration of the current company.
\<close>

definition ticks_prologue :: "env \<Rightarrow> world \<Rightarrow> world" where
  "ticks_prologue e s =
     (let s0 = s\<lparr>vehicles_to_autoreplace := Map.empty\<rparr>;
          s1 = (RunEconomyVehicleDayProc e s0)\<lparr>log := log s0\<rparr>
      in (LoadUnloadStations e s1)\<lparr>log := log s1\<rparr>)"

definition ticks_vehicles :: "env \<Rightarrow> world \<Rightarrow> error + world" where
  "ticks_vehicles e s = iterate_vehicles e [0 ..< MAX_SIZE e] s"

definition ticks_autoreplace :: "env \<Rightarrow> world \<Rightarrow> error + world" where
  "ticks_autoreplace e s =
     (case autoreplace_pass e [0 ..< MAX_SIZE e] s of
        Inl err \<Rightarrow> Inl err
      | Inr s1 \<Rightarrow> Inr (s1\<lparr>current_company := current_company s\<rparr>))"

definition CallVehicleTicks :: "env \<Rightarrow> world \<Rightarrow> error + world" where
  "CallVehicleTicks e s =
     (case ticks_vehicles e (ticks_prologue e s) of
        Inl err \<Rightarrow> Inl err
      | Inr s1 \<Rightarrow> ticks_autoreplace e s1)"

section \<open>Fixtures and frame conditions used in the statements\<close>

text \<open>
  \<open>serviced_like v v'\<close>: \<open>v'\<close> is \<open>v\<close> up to the fields \<^verbatim>\<open>VehicleServiceInDepot\<close> writes.
\<close>

definition serviced_like :: "Vehicle \<Rightarrow> Vehicle \<Rightarrow> bool" where
  "serviced_like v v' =
     (v' = v\<lparr>date_of_last_service := date_of_last_service v',
              date_of_last_service_newgrf := date_of_last_service_newgrf v',
              breakdowns_since_last_service := breakdowns_since_last_service v',
              reliability := reliability v',
              breakdown_chance := breakdown_chance v'\<rparr>)"

text \<open>
  \<open>refit_frame e\<close>: the refit command of the environment leaves the autoreplace map,
  the local company and the tick counter as they are, and it keeps the vehicle it refits
  in the pool with its status flags, its owner, its current order and its unbunching
  data.
\<close>

definition refit_frame :: "env \<Rightarrow> bool" where
  "refit_frame e =
     (\<forall>i c s. vehicles_to_autoreplace (snd (CmdRefitVehicle e i c s)) = vehicles_to_autoreplace s \<and>
        local_company (snd (CmdRefitVehicle e i c s)) = local_company s \<and>
        TimerGameTick_counter (snd (CmdRefitVehicle e i c s)) = TimerGameTick_counter s \<and>
        (\<forall>v. vehicles s i = Some v \<longrightarrow>
           (\<exists>v'. vehicles (snd (CmdRefitVehicle e i c s)) i = Some v' \<and>
              vehstatus v' = vehstatus v \<and> owner v' = owner v \<and>
              current_order v' = current_order v \<and>
              round_trip_time v' = round_trip_time v \<and>
              depot_unbunching_last_departure v' = depot_unbunching_last_departure v)))"

text \<open>
  \<open>refit_fails e i s\<close>: in the world \<open>s\<close> the current order of the vehicle \<open>i\<close> asks for a
  refit, and the refit command (run with the owner as current company) fails.
\<close>

definition refit_fails :: "env \<Rightarrow> VehicleID \<Rightarrow> world \<Rightarrow> bool" where
  "refit_fails e i s =
     (case vehicles s i of
        None \<Rightarrow> False
      | Some v \<Rightarrow>
          (case refit_cargo (current_order v) of
             None \<Rightarrow> False
           | Some c \<Rightarrow> \<not> Succeeded (fst (CmdRefitVehicle e i c (s\<lparr>current_company := owner v\<rparr>)))))"

text \<open>
  \<open>restart_cancelled e i s\<close>: the vehicle \<open>i\<close>, arrived in the depot in the world \<open>s\<close>, has
  reached the depot of its depot order, and its refit fails or the order halts it.
\<close>

definition restart_cancelled :: "env \<Rightarrow> VehicleID \<Rightarrow> world \<Rightarrow> bool" where
  "restart_cancelled e i s =
     (case vehicles s i of
        None \<Rightarrow> False
      | Some v \<Rightarrow>
          order_type (current_order v) = OT_GOTO_DEPOT \<and> \<not> heading_for_another_depot e i v \<and>
          (refit_fails e i s \<or> ODATFB_HALT \<in> depot_action_type (current_order v)))"

text \<open>The movement ticks and the autoreplace commands in a list of events.\<close>

fun ticks_of :: "event list \<Rightarrow> VehicleID list" where
  "ticks_of [] = []"
| "ticks_of (EvTick i # es) = i # ticks_of es"
| "ticks_of (ev # es) = ticks_of es"

fun autoreplaces_of :: "event list \<Rightarrow> (VehicleID \<times> CompanyID \<times> CompanyID) list" where
  "autoreplaces_of [] = []"
| "autoreplaces_of (EvAutoreplace i c ow # es) = (i, c, ow) # autoreplaces_of es"
| "autoreplaces_of (ev # es) = autoreplaces_of es"

text \<open>
  \<open>tick_local e\<close>: the movement tick of a vehicle creates and deletes no other vehicle.
\<close>

definition tick_local :: "env \<Rightarrow> bool" where
  "tick_local e =
     (\<forall>i s j. j \<noteq> i \<longrightarrow> (vehicles (snd (Tick e i s)) j = None) = (vehicles s j = None))"

text \<open>
  An environment whose collaborators do nothing, and a world without vehicles, from
  which the concrete instances are built.
\<close>

definition idle_env :: env where
  "idle_env =
     \<lparr>Tick = (\<lambda>i s. (True, s)),
      CmdAutoreplaceVehicle = (\<lambda>i s. (CommandCost True 0 INVALID_STRING_ID, s)),
      CmdRefitVehicle = (\<lambda>i c s. (CommandCost True 0 INVALID_STRING_ID, s)),
      RunEconomyVehicleDayProc = (\<lambda>s. s),
      LoadUnloadStations = (\<lambda>s. s),
      IsEngine = (\<lambda>v. True),
      IsFrontEngine = (\<lambda>v. True),
      IsNormalAircraft = (\<lambda>v. True),
      HasEngineType = (\<lambda>v. True),
      engine_reliability = (\<lambda>v. 0),
      GetRealOrder = (\<lambda>i. None),
      GetStationIndex = (\<lambda>t. 0),
      engine_renew_money = (\<lambda>c. 0),
      MAX_SIZE = 4\<rparr>"

definition empty_world :: world where
  "empty_world =
     \<lparr>vehicles = Map.empty, vehicle_tile_hash = (\<lambda>b. None), vehicles_to_autoreplace = Map.empty,
      current_company = 0, local_company = 0, TimerGameTick_counter = 0,
      TimerGameEconomy_date = 0, TimerGameCalendar_date = 0,
      settings_game = \<lparr>no_servicing_if_no_breakdowns = False, vehicle_breakdowns = 0\<rparr>,
      log = []\<rparr>"

text \<open>
  A road vehicle at pool index 0 whose current order is a depot order of its order list
  with the unbunch action, which left the depot at tick 50 and has the round trip time
  \<open>rtt\<close>; it stands on tile 0 and its destination is tile 9. The world holds this
  vehicle at the tick \<open>counter\<close>.
\<close>

definition unbunching_vehicle :: "int \<Rightarrow> Vehicle" where
  "unbunching_vehicle rtt =
     (Vehicle_new 0 VEH_ROAD)
       \<lparr>dest_tile := 9,
        current_order := \<lparr>order_type = OT_GOTO_DEPOT, depot_order_type = {ODTFB_PART_OF_ORDERS},
                          depot_action_type = {ODATFB_UNBUNCH}, load_type = {},
                          refit_cargo = None, destination = 0\<rparr>,
        depot_unbunching_last_departure := 50, round_trip_time := rtt\<rparr>"

definition unbunching_world :: "int \<Rightarrow> 64 word \<Rightarrow> world" where
  "unbunching_world rtt counter =
     empty_world\<lparr>vehicles := [0 \<mapsto> unbunching_vehicle rtt], TimerGameTick_counter := counter\<rparr>"

text \<open>
  \<open>status_of s j\<close>: the status flags of the vehicle at the pool index \<open>j\<close>, if there is
  one.
\<close>

definition status_of :: "world \<Rightarrow> VehicleID \<Rightarrow> VehState set option" where
  "status_of s j = map_option vehstatus (vehicles s j)"

text \<open>
  \<open>autoreplace_frame e\<close>: the autoreplace command of the environment replaces nothing; it
  leaves the autoreplace map as it is, and every vehicle of the pool with its status
  flags.
\<close>

definition autoreplace_frame :: "env \<Rightarrow> bool" where
  "autoreplace_frame e =
     (\<forall>i s. vehicles_to_autoreplace (snd (CmdAutoreplaceVehicle e i s)) = vehicles_to_autoreplace s \<and>
        (\<forall>j. map_option vehstatus (vehicles (snd (CmdAutoreplaceVehicle e i s)) j) =
             map_option vehstatus (vehicles s j)))"

text \<open>The advice news items in a list of events.\<close>

fun advice_of :: "event list \<Rightarrow> (AdviceType \<times> StringID \<times> StringID option \<times> VehicleID) list" where
  "advice_of [] = []"
| "advice_of (EvAdviceNews a str par i # es) = (a, str, par, i) # advice_of es"
| "advice_of (ev # es) = advice_of es"

text \<open>
  An environment whose autoreplace and refit commands fail with the message \<open>msg\<close> and
  change nothing.
\<close>

definition failing_env :: "StringID \<Rightarrow> env" where
  "failing_env msg =
     idle_env\<lparr>CmdAutoreplaceVehicle := (\<lambda>i s. (CommandCost False 0 msg, s)),
              CmdRefitVehicle := (\<lambda>i c s. (CommandCost False 0 msg, s))\<rparr>"

text \<open>
  A world with two road vehicles of the company \<open>c\<close> at the pool indices 0 and 1, both in
  the autoreplace map with the value true; the local company is 0.
\<close>

definition queued_world :: "CompanyID \<Rightarrow> world" where
  "queued_world c =
     empty_world\<lparr>vehicles := [0 \<mapsto> (Vehicle_new 0 VEH_ROAD)\<lparr>owner := c\<rparr>,
                              1 \<mapsto> (Vehicle_new 1 VEH_ROAD)\<lparr>owner := c\<rparr>],
                 vehicles_to_autoreplace := [0 \<mapsto> True, 1 \<mapsto> True]\<rparr>"

text \<open>
  A world with a road vehicle of the local company at pool index 0 whose current order is
  a depot order with a refit to cargo 3.
\<close>

definition refit_world :: world where
  "refit_world =
     empty_world\<lparr>vehicles := [0 \<mapsto> (Vehicle_new 0 VEH_ROAD)
        \<lparr>current_order := \<lparr>order_type = OT_GOTO_DEPOT, depot_order_type = {},
                           depot_action_type = {}, load_type = {},
                           refit_cargo = Some 3, destination = 0\<rparr>\<rparr>]\<rparr>"

section \<open>Proofs\<close>

subsection \<open>Machine integers\<close>

lemma of_nat_32_unat: "n < 2 ^ 32 \<Longrightarrow> unat (of_nat n :: 32 word) = n"
  by (simp add: unat_of_nat)

lemma of_nat_32_sint:
  assumes "n < 2 ^ 31"
  shows "sint (of_nat n :: 32 word) = int n"
proof -
  have "sint (of_nat n :: 32 word) = signed_take_bit 31 (int n)"
    by (simp add: signed_of_nat)
  also have "\<dots> = int n"
    using assms by (simp add: signed_take_bit_int_eq_self_iff)
  finally show ?thesis .
qed

subsection \<open>CalcPercentVehicleFilled\<close>

lemma fill_step_ok:
  assumes "want_colour \<longrightarrow> st \<noteq> None"
  shows "\<exists>a1. fill_step front want_colour st nl fl v a = Inr a1
           \<and> fl_count a1 = fl_count a + cargo_stored v \<and> fl_max a1 = fl_max a + ucast (cargo_cap v)"
proof (cases "cargo_cap v \<noteq> 0 \<and> want_colour")
  case True
  with assms obtain h where "st = Some h" by auto
  with True show ?thesis by (simp add: fill_step_def Let_def)
next
  case False
  then show ?thesis by (auto simp add: fill_step_def Let_def)
qed

lemma fill_loop_consist:
  assumes "consist P p vs" and "want_colour \<longrightarrow> st \<noteq> None"
  shows "\<exists>a'. fill_loop P front want_colour st nl fl p a = Some (Inr a')
           \<and> fl_count a' = fl_count a + of_nat (stored_total P vs)
           \<and> fl_max a' = fl_max a + of_nat (capacity_total P vs)"
  using assms
proof (induction vs arbitrary: p a)
  case Nil
  then show ?case by (simp add: fill_loop.simps stored_total_def capacity_total_def)
next
  case (Cons x xs)
  from Cons.prems obtain v where p: "p = Some x" and v: "P x = Some v" and c: "consist P (nextv v) xs"
    by (auto split: option.splits)
  obtain a1 where a1: "fill_step front want_colour st nl fl v a = Inr a1"
     and c1: "fl_count a1 = fl_count a + cargo_stored v" and m1: "fl_max a1 = fl_max a + ucast (cargo_cap v)"
    using fill_step_ok[OF Cons.prems(2)] by blast
  from Cons.IH[OF c Cons.prems(2), of a1] obtain a' where
    "fill_loop P front want_colour st nl fl (nextv v) a1 = Some (Inr a')"
    "fl_count a' = fl_count a1 + of_nat (stored_total P xs)" "fl_max a' = fl_max a1 + of_nat (capacity_total P xs)"
    by blast
  then show ?case using p v a1 c1 m1
    by (subst fill_loop.simps) (simp add: stored_total_def capacity_total_def)
qed

lemma int_div_nat: "int_div (int a) (int b) = int (a div b)"
  by (simp add: int_div_def sgn_if zdiv_int)

lemma of_nat_32_eq_0:
  assumes "n < 2 ^ 32"
  shows "((of_nat n :: 32 word) = 0) = (n = 0)"
proof
  assume "(of_nat n :: 32 word) = 0"
  then have "unat (of_nat n :: 32 word) = 0" by simp
  then show "n = 0" by (simp only: of_nat_32_unat[OF assms])
next
  assume "n = 0" then show "(of_nat n :: 32 word) = 0" by simp
qed

lemma ucast_of_nat_32_8: "n < 2 ^ 32 \<Longrightarrow> (ucast (of_nat n :: 32 word) :: 8 word) = of_nat n"
proof -
  assume "n < 2 ^ 32"
  then have "unat (of_nat n :: 32 word) = n" by (rule of_nat_32_unat)
  moreover have "(ucast (of_nat n :: 32 word) :: 8 word) = of_nat (unat (of_nat n :: 32 word))"
    by (simp only: of_nat_unat)
  ultimately show ?thesis by simp
qed

lemma CeilDiv_nat:
  assumes "0 < C" "A + C < 2 ^ 32"
  shows "CeilDiv (of_nat A) (of_nat C) = (of_nat ((A + C - 1) div C) :: 32 word)"
proof -
  have e: "(of_nat A + of_nat C - 1 :: 32 word) = of_nat (A + C - 1)"
    using assms(1) by (simp add: of_nat_diff)
  have u1: "unat (of_nat (A + C - 1) :: 32 word) = A + C - 1"
    using assms by (intro of_nat_32_unat) simp
  have u2: "unat (of_nat C :: 32 word) = C"
    using assms by (intro of_nat_32_unat) simp
  have "(of_nat (A + C - 1) :: 32 word) div of_nat C
      = of_nat (unat (of_nat (A + C - 1) :: 32 word) div unat (of_nat C :: 32 word))"
    by (rule word_arith_nat_div)
  then show ?thesis by (simp only: CeilDiv_def e u1 u2)
qed

lemma percent_of_nat:
  assumes "S * 100 < 2 ^ 31" "C < 2 ^ 31"
  shows "percent_of (of_nat S) (of_nat C) =
           (if C = 0 then 100
            else if S * 2 < C then of_nat ((S * 100 + C - 1) div C)
            else of_nat ((S * 100) div C))"
proof -
  have z: "((of_nat C :: 32 word) = 0) = (C = 0)"
    using assms(2) by (intro of_nat_32_eq_0) simp
  have s2: "sint (of_nat S * 2 :: 32 word) = int (S * 2)"
  proof -
    have "(of_nat S * 2 :: 32 word) = of_nat (S * 2)" by simp
    moreover have "S * 2 < 2 ^ 31" using assms(1) by simp
    ultimately show ?thesis by (simp only: of_nat_32_sint)
  qed
  have s100: "sint (of_nat S * 100 :: 32 word) = int (S * 100)"
  proof -
    have "(of_nat S * 100 :: 32 word) = of_nat (S * 100)" by simp
    then show ?thesis using assms(1) by (simp only: of_nat_32_sint)
  qed
  have sc: "sint (of_nat C :: 32 word) = int C" using assms(2) by (rule of_nat_32_sint)
  have less: "((of_nat S * 2 :: 32 word) <s of_nat C) = (S * 2 < C)"
    by (simp only: word_sless_alt s2 sc of_nat_less_iff)
  show ?thesis
  proof (cases "C = 0")
    case True
    then show ?thesis by (simp add: percent_of_def)
  next
    case nz: False
    show ?thesis
    proof (cases "S * 2 < C")
      case True
      have b: "S * 100 + C < 2 ^ 32" using assms by simp
      have "CeilDiv (of_nat S * 100) (of_nat C) = (of_nat ((S * 100 + C - 1) div C) :: 32 word)"
        using CeilDiv_nat[of C "S * 100"] nz b by simp
      moreover have "(S * 100 + C - 1) div C < 2 ^ 32"
        using b by (meson div_le_dividend diff_le_self le_less_trans)
      ultimately have "(ucast (CeilDiv (of_nat S * 100) (of_nat C)) :: 8 word) = of_nat ((S * 100 + C - 1) div C)"
        by (simp only: ucast_of_nat_32_8)
      then show ?thesis using nz True z less by (simp only: percent_of_def if_True if_False)
    next
      case False
      have "int_div (sint (of_nat S * 100 :: 32 word)) (sint (of_nat C :: 32 word)) = int ((S * 100) div C)"
        by (simp only: s100 sc int_div_nat)
      then have "(of_int (int_div (sint (of_nat S * 100 :: 32 word)) (sint (of_nat C :: 32 word))) :: 8 word)
          = of_nat ((S * 100) div C)" by simp
      then show ?thesis using nz False z less by (simp only: percent_of_def if_True if_False)
    qed
  qed
qed

lemma ceil_div_least:
  fixes a b :: nat
  assumes "0 < b"
  shows "a \<le> (a + b - 1) div b * b" and "\<And>k. a \<le> k * b \<Longrightarrow> (a + b - 1) div b \<le> k"
proof -
  have "a + b - 1 < ((a + b - 1) div b + 1) * b"
    using assms by (metis Suc_eq_plus1 dividend_less_div_times mult.commute mult_Suc)
  then show "a \<le> (a + b - 1) div b * b"
    using assms by simp
next
  fix k assume "a \<le> k * b"
  then have "a + b - 1 < (k + 1) * b" using assms by simp
  then have "(a + b - 1) div b < k + 1"
    using assms by (simp add: less_mult_imp_div_less)
  then show "(a + b - 1) div b \<le> k" by simp
qed

lemma unat_of_nat_8: "unat (of_nat n :: 8 word) = n mod 256"
  by (simp add: unat_of_nat)

text \<open>
  Claim C7, as amended. Let \<open>count\<close> be the stored cargo and \<open>max\<close> the capacity summed
  along the \<^verbatim>\<open>Next()\<close> chain of the front vehicle, with \<open>count * 100\<close> and \<open>max\<close> below
  \<open>2^31\<close>, so that the \<^verbatim>\<open>int\<close> arithmetic of the source does not overflow. Then
  \<^verbatim>\<open>CalcPercentVehicleFilled\<close> returns 100 when \<open>max = 0\<close>; below half full it returns the
  quotient rounded up, the least \<open>k\<close> with \<open>count * 100 \<le> k * max\<close>; from half full on it
  returns \<open>count * 100 div max\<close> narrowed to 8 bits, which is the quotient itself when the
  consist holds no more than its capacity; and for such a consist 0 is returned only when
  it is empty and 100 only when it is full.
\<close>

theorem CalcPercentVehicleFilled_rounding:
  assumes "P front = Some f" and "consist P (Some front) vs"
    and "want_colour \<longrightarrow> st \<noteq> None \<and> order_type (current_order f) = OT_LOADING"
    and "stored_total P vs * 100 < 2 ^ 31" and "capacity_total P vs < 2 ^ 31"
  shows "\<exists>pct col. CalcPercentVehicleFilled P front want_colour st = Some (Inr (pct, col)) \<and>
     (capacity_total P vs = 0 \<longrightarrow> pct = 100) \<and>
     (capacity_total P vs \<noteq> 0 \<and> stored_total P vs * 2 < capacity_total P vs \<longrightarrow>
        unat pct = (stored_total P vs * 100 + capacity_total P vs - 1) div capacity_total P vs \<and>
        stored_total P vs * 100 \<le> unat pct * capacity_total P vs \<and>
        (\<forall>k. stored_total P vs * 100 \<le> k * capacity_total P vs \<longrightarrow> unat pct \<le> k)) \<and>
     (capacity_total P vs \<noteq> 0 \<and> \<not> stored_total P vs * 2 < capacity_total P vs \<longrightarrow>
        unat pct = ((stored_total P vs * 100) div capacity_total P vs) mod 256) \<and>
     (capacity_total P vs \<noteq> 0 \<and> \<not> stored_total P vs * 2 < capacity_total P vs \<and>
      stored_total P vs \<le> capacity_total P vs \<longrightarrow>
        unat pct = (stored_total P vs * 100) div capacity_total P vs) \<and>
     (capacity_total P vs \<noteq> 0 \<and> stored_total P vs \<le> capacity_total P vs \<longrightarrow>
        (pct = 0 \<longleftrightarrow> stored_total P vs = 0) \<and>
        (pct = 100 \<longleftrightarrow> stored_total P vs = capacity_total P vs))"
proof -
  define cnt where "cnt = stored_total P vs"
  define mx where "mx = capacity_total P vs"
  define pct where "pct = percent_of (of_nat cnt) (of_nat mx)"
  let ?a0 = "\<lparr>fl_count = 0, fl_max = 0, fl_cars = 0, fl_unloading = 0, fl_loading = False\<rparr>"
  let ?nl = "order_type (current_order f) = OT_LOADING \<and> OLFB_NO_LOAD \<in> load_type (current_order f)"
  let ?fl = "order_type (current_order f) = OT_LOADING \<and> OLFB_FULL_LOAD \<in> load_type (current_order f)"
  from assms(3) have st: "want_colour \<longrightarrow> st \<noteq> None" by simp
  from fill_loop_consist[OF assms(2) st, of f ?nl ?fl ?a0]
  obtain a' where loop: "fill_loop P f want_colour st ?nl ?fl (Some front) ?a0 = Some (Inr a')"
    and c: "fl_count a' = of_nat cnt" and m: "fl_max a' = of_nat mx"
    by (auto simp: cnt_def mx_def)
  have res: "CalcPercentVehicleFilled P front want_colour st =
      Some (Inr (pct, if want_colour then Some (percent_colour a') else None))"
    using assms(1,3) loop c m by (simp add: CalcPercentVehicleFilled_def Let_def pct_def)
  have b: "cnt * 100 < 2 ^ 31" "mx < 2 ^ 31" using assms(4,5) by (simp_all add: cnt_def mx_def)
  have pn: "pct = (if mx = 0 then 100
            else if cnt * 2 < mx then of_nat ((cnt * 100 + mx - 1) div mx)
            else of_nat ((cnt * 100) div mx))"
    unfolding pct_def by (rule percent_of_nat[OF b])
  have zero: "mx = 0 \<longrightarrow> pct = 100" by (simp add: pn)
  have lowv: "unat pct = (cnt * 100 + mx - 1) div mx" "(cnt * 100 + mx - 1) div mx \<le> 50"
    if "mx \<noteq> 0" "cnt * 2 < mx"
  proof -
    have "cnt * 100 \<le> 50 * mx" using that by simp
    then show le: "(cnt * 100 + mx - 1) div mx \<le> 50"
      using ceil_div_least(2)[of mx "cnt * 100" 50] that by simp
    then show "unat pct = (cnt * 100 + mx - 1) div mx"
      using that by (simp add: pn unat_of_nat_8)
  qed
  have low: "unat pct = (cnt * 100 + mx - 1) div mx \<and>
        cnt * 100 \<le> unat pct * mx \<and> (\<forall>k. cnt * 100 \<le> k * mx \<longrightarrow> unat pct \<le> k)"
    if "mx \<noteq> 0" "cnt * 2 < mx"
    using lowv(1)[OF that] ceil_div_least[of mx "cnt * 100"] that by simp
  have highm: "unat pct = ((cnt * 100) div mx) mod 256" if "mx \<noteq> 0" "\<not> cnt * 2 < mx"
    using that by (simp add: pn unat_of_nat_8)
  have highv: "unat pct = (cnt * 100) div mx" "(cnt * 100) div mx \<le> 100" "50 \<le> (cnt * 100) div mx"
    if "mx \<noteq> 0" "\<not> cnt * 2 < mx" "cnt \<le> mx"
  proof -
    have "cnt * 100 \<le> 100 * mx" using that by simp
    then show le: "(cnt * 100) div mx \<le> 100" using that
      by (metis div_le_mono div_mult_self_is_m mult.commute neq0_conv)
    have "50 * mx \<le> cnt * 100" using that by simp
    then show "50 \<le> (cnt * 100) div mx" using that
      by (metis div_le_mono div_mult_self_is_m  neq0_conv)
    show "unat pct = (cnt * 100) div mx"
      using highm[OF that(1,2)] le by simp
  qed
  have ends: "(pct = 0 \<longleftrightarrow> cnt = 0) \<and> (pct = 100 \<longleftrightarrow> cnt = mx)"
    if h: "mx \<noteq> 0" "cnt \<le> mx"
  proof (cases "cnt * 2 < mx")
    case True
    note l = lowv[OF h(1) True]
    have z: "(cnt * 100 + mx - 1) div mx = 0 \<longleftrightarrow> cnt = 0"
      using ceil_div_least(1)[of mx "cnt * 100"] h by auto
    have "pct = 0 \<longleftrightarrow> unat pct = 0" by (simp add: unat_eq_0)
    moreover have "pct \<noteq> 100"
    proof
      assume "pct = 100"
      then have "unat pct = 100" by simp
      with l show False by simp
    qed
    moreover have "cnt \<noteq> mx" using True h by auto
    ultimately show ?thesis using l z by simp
  next
    case False
    note l = highv[OF h(1) False h(2)]
    have "pct \<noteq> 0"
    proof
      assume "pct = 0"
      then have "unat pct = 0" by simp
      with l show False by simp
    qed
    moreover have "cnt \<noteq> 0" using False h by auto
    moreover have "pct = 100 \<longleftrightarrow> unat pct = 100"
      by (simp add: word_unat_eq_iff)
    moreover have "(cnt * 100) div mx = 100 \<longleftrightarrow> cnt = mx"
    proof
      assume "(cnt * 100) div mx = 100"
      then have "100 * mx \<le> cnt * 100"
        using div_times_less_eq_dividend[of "cnt * 100" mx] by simp
      with h show "cnt = mx" by simp
    next
      assume "cnt = mx" then show "(cnt * 100) div mx = 100" using h by simp
    qed
    ultimately show ?thesis using l by simp
  qed
  show ?thesis unfolding cnt_def[symmetric] mx_def[symmetric]
    using res zero low highm highv(1) ends by blast
qed

theorem CalcPercentVehicleFilled_rounding_witness:
  "\<exists>col. CalcPercentVehicleFilled
      [0 \<mapsto> (Vehicle_new 0 VEH_TRAIN)\<lparr>nextv := Some 1, cargo_stored := 1, cargo_cap := 1\<rparr>,
       1 \<mapsto> (Vehicle_new 1 VEH_TRAIN)\<lparr>previous := Some 0, first := Some 0, cargo_cap := 3\<rparr>]
      0 False None = Some (Inr (25, col))"
proof -
  let ?P = "[0 \<mapsto> (Vehicle_new 0 VEH_TRAIN)\<lparr>nextv := Some 1, cargo_stored := 1, cargo_cap := 1\<rparr>,
       1 \<mapsto> (Vehicle_new 1 VEH_TRAIN)\<lparr>previous := Some 0, first := Some 0, cargo_cap := 3\<rparr>]"
  have "\<exists>pct col. CalcPercentVehicleFilled ?P 0 False None = Some (Inr (pct, col)) \<and> unat pct = 25"
    using CalcPercentVehicleFilled_rounding[of ?P 0
        "(Vehicle_new 0 VEH_TRAIN)\<lparr>nextv := Some 1, cargo_stored := 1, cargo_cap := 1\<rparr>" "[0, 1]" False None]
    by (simp add: stored_total_def capacity_total_def Vehicle_new_def) blast
  then obtain pct col where r: "CalcPercentVehicleFilled ?P 0 False None = Some (Inr (pct, col))"
    and "unat pct = unat (25 :: 8 word)" by auto
  then have "pct = 25" by (simp only: word_unat_eq_iff)
  with r show ?thesis by blast
qed

lemma CalcPercentVehicleFilled_examples:
  "CalcPercentVehicleFilled [0 \<mapsto> (Vehicle_new 0 VEH_ROAD)\<lparr>cargo_stored := 1, cargo_cap := 4\<rparr>] 0 False None
     = Some (Inr (25, None))"
  "CalcPercentVehicleFilled [0 \<mapsto> (Vehicle_new 0 VEH_ROAD)\<lparr>cargo_stored := 2, cargo_cap := 4\<rparr>] 0 False None
     = Some (Inr (50, None))"
  "CalcPercentVehicleFilled [0 \<mapsto> Vehicle_new 0 VEH_ROAD] 0 False None = Some (Inr (100, None))"
  by (simp_all add: CalcPercentVehicleFilled_def fill_loop.simps fill_step_def percent_of_def
      CeilDiv_def int_div_def Vehicle_new_def)

lemma full_train_consist:
  "k < n \<Longrightarrow> consist (full_train n) (Some k) [k ..< n]"
proof (induction "n - k" arbitrary: k)
  case 0
  then show ?case by simp
next
  case (Suc d)
  then have l: "[k ..< n] = k # [Suc k ..< n]" by (simp add: upt_conv_Cons)
  show ?case
  proof (cases "Suc k < n")
    case True
    with Suc have "consist (full_train n) (Some (Suc k)) [Suc k ..< n]" by simp
    then show ?thesis using True Suc.prems by (simp add: l full_train_def)
  next
    case False
    then show ?thesis using Suc.prems by (simp add: l full_train_def)
  qed
qed

lemma full_train_totals:
  "k \<le> n \<Longrightarrow> stored_total (full_train n) [k ..< n] = (n - k) * 65535 \<and>
     capacity_total (full_train n) [k ..< n] = (n - k) * 65535"
proof (induction "n - k" arbitrary: k)
  case 0
  then show ?case by (simp add: stored_total_def capacity_total_def)
next
  case (Suc d)
  then have kn: "k < n" by simp
  then have l: "[k ..< n] = k # [Suc k ..< n]" by (simp add: upt_conv_Cons)
  from Suc have "stored_total (full_train n) [Suc k ..< n] = (n - Suc k) * 65535 \<and>
     capacity_total (full_train n) [Suc k ..< n] = (n - Suc k) * 65535" by simp
  moreover have "n - k = Suc (n - Suc k)" using kn by simp
  ultimately show ?case using kn
    by (simp add: l stored_total_def capacity_total_def full_train_def)
qed

lemma percent_of_overflow: "percent_of 21626550 21626550 = 158"
  by (simp add: percent_of_def int_div_def)

lemma percent_of_over_capacity: "percent_of 3 1 = 44"
  by (simp add: percent_of_def int_div_def word_sless_alt)

text \<open>
  The claim as it was stated fails outside these bounds: a vehicle that holds 3 units in
  a capacity of 1 gives 44, not 300, and a full train of 330 vehicles with 65535 units
  each gives 158, not 100, because \<open>count * 100\<close> no longer fits an \<^verbatim>\<open>int\<close>.
\<close>

theorem CalcPercentVehicleFilled_rounding_counterexample:
  "CalcPercentVehicleFilled [0 \<mapsto> (Vehicle_new 0 VEH_ROAD)\<lparr>cargo_stored := 3, cargo_cap := 1\<rparr>] 0 False None
     = Some (Inr (44, None)) \<and>
   (3 * 100) div 1 = (300 :: nat) \<and>
   CalcPercentVehicleFilled (full_train 330) 0 False None = Some (Inr (158, None)) \<and>
   stored_total (full_train 330) [0 ..< 330] = capacity_total (full_train 330) [0 ..< 330]"
proof -
  have a: "CalcPercentVehicleFilled [0 \<mapsto> (Vehicle_new 0 VEH_ROAD)\<lparr>cargo_stored := 3, cargo_cap := 1\<rparr>] 0 False None
     = Some (Inr (44, None))"
    by (simp add: CalcPercentVehicleFilled_def fill_loop.simps fill_step_def percent_of_over_capacity
      Vehicle_new_def)
  let ?f = "(Vehicle_new 0 VEH_TRAIN)\<lparr>nextv := Some (Suc 0), first := Some 0,
               cargo_stored := 65535, cargo_cap := 65535\<rparr>"
  let ?a0 = "\<lparr>fl_count = 0, fl_max = 0, fl_cars = 0, fl_unloading = 0, fl_loading = False\<rparr>"
  have f: "full_train 330 0 = Some ?f" by (simp add: full_train_def)
  have c: "consist (full_train 330) (Some 0) [0 ..< 330]" by (rule full_train_consist) simp
  have t: "stored_total (full_train 330) [0 ..< 330] = 21626550"
      "capacity_total (full_train 330) [0 ..< 330] = 21626550"
    using full_train_totals[of 0 330] by simp_all
  from fill_loop_consist[OF c, of False None ?f False False ?a0]
  obtain a' where loop: "fill_loop (full_train 330) ?f False None False False (Some 0) ?a0 = Some (Inr a')"
    and "fl_count a' = 21626550" "fl_max a' = 21626550"
    by (auto simp: t)
  then have b: "CalcPercentVehicleFilled (full_train 330) 0 False None = Some (Inr (158, None))"
    using f by (simp add: CalcPercentVehicleFilled_def Let_def percent_of_overflow Vehicle_new_def)
  show ?thesis using a b t by simp
qed

subsection \<open>FreeUnitIDGenerator\<close>

lemma find_bit_spec:
  assumes "i \<le> j" "j < i + n" "bit w j"
  shows "i \<le> find_bit n i w \<and> find_bit n i w \<le> j \<and> bit w (find_bit n i w) \<and>
         (\<forall>k. i \<le> k \<and> k < find_bit n i w \<longrightarrow> \<not> bit w k)"
  using assms
proof (induction n arbitrary: i)
  case 0
  then show ?case by simp
next
  case (Suc n)
  show ?case
  proof (cases "bit w i")
    case True
    then show ?thesis using Suc.prems by auto
  next
    case False
    with Suc.prems have "Suc i \<le> j" by (metis Suc_leI le_neq_implies_less)
    from Suc.IH[OF this] Suc.prems False
    have IH: "Suc i \<le> find_bit n (Suc i) w \<and> find_bit n (Suc i) w \<le> j \<and> bit w (find_bit n (Suc i) w) \<and>
         (\<forall>k. Suc i \<le> k \<and> k < find_bit n (Suc i) w \<longrightarrow> \<not> bit w k)" by simp
    have "\<not> bit w k" if "i \<le> k" "k < find_bit n (Suc i) w" for k
    proof (cases "k = i")
      case True
      with False show ?thesis by simp
    next
      case neq: False
      with that have "Suc i \<le> k" by simp
      with IH that show ?thesis by blast
    qed
    then show ?thesis using False IH by simp

  qed
qed

lemma FindFirstBit_spec:
  fixes w :: "'a::len word"
  assumes "w \<noteq> 0"
  shows "FindFirstBit w < LENGTH('a)" "bit w (FindFirstBit w)" "\<And>k. k < FindFirstBit w \<Longrightarrow> \<not> bit w k"
proof -
  from assms obtain j where j: "bit w j" by (auto simp: bit_eq_iff)
  then have jl: "j < LENGTH('a)" by (simp add: bit_imp_le_length)
  from find_bit_spec[of 0 j "LENGTH('a)" w] j jl
  have s: "find_bit LENGTH('a) 0 w \<le> j \<and> bit w (find_bit LENGTH('a) 0 w) \<and>
         (\<forall>k. k < find_bit LENGTH('a) 0 w \<longrightarrow> \<not> bit w k)" by simp
  show "FindFirstBit w < LENGTH('a)" using s jl assms by (simp add: FindFirstBit_def)
  show "bit w (FindFirstBit w)" using s assms by (simp add: FindFirstBit_def)
  show "\<And>k. k < FindFirstBit w \<Longrightarrow> \<not> bit w k" using s assms by (simp add: FindFirstBit_def)
qed

lemma bit_at_Nil [simp]: "bit_at [] p = False"
  by (simp add: bit_at_def)

lemma bit_at_Cons:
  "bit_at ((w::'a::len word) # ws) p = (if p < LENGTH('a) then bit w p else bit_at ws (p - LENGTH('a)))"
proof (cases "p < LENGTH('a)")
  case True
  then show ?thesis by (simp add: bit_at_def)
next
  case False
  then have "p div LENGTH('a) = Suc ((p - LENGTH('a)) div LENGTH('a))"
    by (simp add: le_div_geq)
  moreover have "p mod LENGTH('a) = (p - LENGTH('a)) mod LENGTH('a)"
    using False by (simp add: le_mod_geq)
  ultimately show ?thesis using False by (simp add: bit_at_def)
qed

lemma NextID_from_shift:
  "NextID_from d (bm :: 'a::len word list) = d * LENGTH('a) + NextID_from 0 bm"
proof (induction bm arbitrary: d)
  case Nil
  then show ?case by simp
next
  case (Cons w ws)
  show ?case using Cons.IH[of "d + 1"] Cons.IH[of 1] by (simp add: Let_def)
qed

lemma NextID_from_least:
  fixes bm :: "'a::len word list"
  shows "\<exists>p. NextID_from 0 bm = p + 1 \<and> \<not> bit_at bm p \<and> (\<forall>q<p. bit_at bm q) \<and> p \<le> length bm * LENGTH('a)"
proof (induction bm)
  case Nil
  then show ?case by simp
next
  case (Cons w ws)
  then obtain p where p: "NextID_from 0 ws = p + 1" "\<not> bit_at ws p" "\<forall>q<p. bit_at ws q" "p \<le> length ws * LENGTH('a)"
    by blast
  show ?case
  proof (cases "NOT w = 0")
    case True
    have all: "bit w k" if "k < LENGTH('a)" for k
    proof -
      have "bit (NOT w) k = bit (0::'a word) k" using True by simp
      then show ?thesis using that by (simp add: bit_not_iff)
    qed
    have n: "NextID_from 0 (w # ws) = (LENGTH('a) + p) + 1"
      using True p(1) NextID_from_shift[of 1 ws] by simp
    have "\<not> bit_at (w # ws) (LENGTH('a) + p)" using p(2) by (simp add: bit_at_Cons)
    moreover have "\<forall>q < LENGTH('a) + p. bit_at (w # ws) q"
      using p(3) all by (auto simp: bit_at_Cons)
    ultimately show ?thesis using n p(4) by auto
  next
    case False
    note f = FindFirstBit_spec[OF False]
    have n: "NextID_from 0 (w # ws) = FindFirstBit (NOT w) + 1" using False by simp
    have "\<not> bit_at (w # ws) (FindFirstBit (NOT w))" using f(1,2) by (simp add: bit_at_Cons bit_not_iff)
    moreover have "\<forall>q < FindFirstBit (NOT w). bit_at (w # ws) q"
      using f(1,3) by (auto simp: bit_at_Cons bit_not_iff)
    ultimately show ?thesis using n f(1) by auto
  qed
qed

lemma bit_at_pad:
  "bit_at (bm @ replicate k (0::'a::len word)) p = bit_at bm p"
  by (auto simp: bit_at_def nth_append)

lemma bit_at_update:
  fixes bm :: "'a::len word list"
  assumes "s < length bm"
  shows "bit_at (bm[s := w]) p =
     (if p div LENGTH('a) = s then bit w (p mod LENGTH('a)) else bit_at bm p)"
  using assms by (auto simp: bit_at_def)

lemma unat_pred:
  fixes idx :: "16 word"
  assumes "idx \<noteq> 0"
  shows "unat (idx - 1) = unat idx - 1"
  using assms by (simp add: unat_minus_one)

lemma div_mod_eq_iff:
  fixes p q :: nat
  shows "(p div b = q div b \<and> p mod b = q mod b) = (p = q)"
proof
  assume "p div b = q div b \<and> p mod b = q mod b"
  then have "p div b * b + p mod b = q div b * b + q mod b" by simp
  then show "p = q" by (simp only: div_mult_mod_eq)
next
  assume "p = q" then show "p div b = q div b \<and> p mod b = q mod b" by simp
qed

lemma bit_at_UseID:
  fixes bm :: "'a::len word list"
  assumes "idx \<noteq> 0" "idx \<noteq> 0xFFFF"
  shows "bit_at (snd (UseID idx bm)) p = (bit_at bm p \<or> p = unat idx - 1)"
proof -
  define i where "i = unat (idx - 1)"
  define s where "s = i div LENGTH('a)"
  define bm1 where "bm1 = (if s \<ge> length bm then bm @ replicate (s + 1 - length bm) 0 else bm)"
  have i: "i = unat idx - 1" using assms(1) by (simp add: i_def unat_pred)
  have len: "s < length bm1" by (simp add: bm1_def)
  have pad: "bit_at bm1 q = bit_at bm q" for q by (simp add: bm1_def bit_at_pad)
  have u: "snd (UseID idx bm) = bm1[s := set_bit (i mod LENGTH('a)) (bm1 ! s)]"
    using assms by (simp add: UseID_def Let_def i_def s_def bm1_def)
  have m: "i mod LENGTH('a) < LENGTH('a)" by simp
  show ?thesis
  proof (cases "p div LENGTH('a) = s")
    case True
    have "bit_at (snd (UseID idx bm)) p = bit (set_bit (i mod LENGTH('a)) (bm1 ! s)) (p mod LENGTH('a))"
      using True len by (simp add: u bit_at_update)
    also have "\<dots> = (bit (bm1 ! s) (p mod LENGTH('a)) \<or> p mod LENGTH('a) = i mod LENGTH('a))"
      by (auto simp: bit_set_bit_iff)
    also have "bit (bm1 ! s) (p mod LENGTH('a)) = bit_at bm1 p"
      using True len by (simp add: bit_at_def)
    also have "(p mod LENGTH('a) = i mod LENGTH('a)) = (p = i)"
      using True div_mod_eq_iff[of p "LENGTH('a)" i] by (simp add: s_def)
    finally show ?thesis by (simp add: pad i)
  next
    case False
    then have "p \<noteq> i" by (auto simp: s_def)
    then show ?thesis using False len by (simp add: u bit_at_update pad i)
  qed
qed

lemma bit_at_ReleaseID:
  fixes bm :: "'a::len word list"
  assumes "idx \<noteq> 0" "idx \<noteq> 0xFFFF" "bit_at bm (unat idx - 1)"
  shows "\<exists>bm'. ReleaseID idx bm = Inr bm' \<and> (\<forall>p. bit_at bm' p = (bit_at bm p \<and> p \<noteq> unat idx - 1))"
proof -
  define i where "i = unat (idx - 1)"
  define s where "s = i div LENGTH('a)"
  have i: "i = unat idx - 1" using assms(1) by (simp add: i_def unat_pred)
  have len: "s < length bm" using assms(3) by (simp add: bit_at_def s_def i)
  have r: "ReleaseID idx bm = Inr (bm[s := unset_bit (i mod LENGTH('a)) (bm ! s)])"
    using assms(1,2) len by (simp add: ReleaseID_def Let_def i_def s_def)
  have "bit_at (bm[s := unset_bit (i mod LENGTH('a)) (bm ! s)]) p = (bit_at bm p \<and> p \<noteq> i)" for p
  proof (cases "p div LENGTH('a) = s")
    case True
    have "bit_at (bm[s := unset_bit (i mod LENGTH('a)) (bm ! s)]) p
        = bit (unset_bit (i mod LENGTH('a)) (bm ! s)) (p mod LENGTH('a))"
      using True len by (simp add: bit_at_update)
    also have "\<dots> = (bit (bm ! s) (p mod LENGTH('a)) \<and> p mod LENGTH('a) \<noteq> i mod LENGTH('a))"
      by (auto simp: bit_unset_bit_iff)
    also have "bit (bm ! s) (p mod LENGTH('a)) = bit_at bm p"
      using True len by (simp add: bit_at_def)
    also have "(p mod LENGTH('a) \<noteq> i mod LENGTH('a)) = (p \<noteq> i)"
      using True div_mod_eq_iff[of p "LENGTH('a)" i] by (simp add: s_def)
    finally show ?thesis .
  next
    case False
    then have "p \<noteq> i" by (auto simp: s_def)
    then show ?thesis using False len by (simp add: bit_at_update)
  qed
  then show ?thesis using r i by simp
qed

lemma id_used_UseID:
  fixes bm :: "'a::len word list"
  assumes "idx \<noteq> 0" "idx \<noteq> 0xFFFF"
  shows "id_used (snd (UseID idx bm)) n = (id_used bm n \<or> n = unat idx)"
proof -
  have "0 < unat idx" using assms(1) by (simp add: unat_gt_0)
  then show ?thesis by (auto simp: id_used_def bit_at_UseID[OF assms])
qed

lemma id_used_ReleaseID:
  fixes bm :: "'a::len word list"
  assumes "idx \<noteq> 0" "idx \<noteq> 0xFFFF" "id_used bm (unat idx)"
  shows "\<exists>bm'. ReleaseID idx bm = Inr bm' \<and> (\<forall>n. id_used bm' n = (id_used bm n \<and> n \<noteq> unat idx))"
proof -
  have pos: "0 < unat idx" using assms(1) by (simp add: unat_gt_0)
  from assms(3) have "bit_at bm (unat idx - 1)" by (simp add: id_used_def)
  from bit_at_ReleaseID[OF assms(1,2) this] obtain bm' where
    r: "ReleaseID idx bm = Inr bm'" and b: "\<forall>p. bit_at bm' p = (bit_at bm p \<and> p \<noteq> unat idx - 1)" by blast
  have "id_used bm' n = (id_used bm n \<and> n \<noteq> unat idx)" for n
  proof (cases "n = 0")
    case True
    then show ?thesis by (simp add: id_used_def)
  next
    case False
    have "bit_at bm' (n - 1) = (bit_at bm (n - 1) \<and> n - 1 \<noteq> unat idx - 1)" using b by blast
    moreover have "(n - 1 \<noteq> unat idx - 1) = (n \<noteq> unat idx)" using False pos by arith
    ultimately show ?thesis using False by (simp add: id_used_def)
  qed
  with r show ?thesis by blast
qed

lemma NextID_from_id:
  fixes bm :: "'a::len word list"
  shows "0 < NextID_from 0 bm \<and> \<not> id_used bm (NextID_from 0 bm) \<and>
         (\<forall>n. 0 < n \<and> n < NextID_from 0 bm \<longrightarrow> id_used bm n) \<and>
         NextID_from 0 bm \<le> length bm * LENGTH('a) + 1"
proof -
  from NextID_from_least[of bm] obtain p where
    p: "NextID_from 0 bm = p + 1" "\<not> bit_at bm p" "\<forall>q<p. bit_at bm q" "p \<le> length bm * LENGTH('a)"
    by blast
  then show ?thesis by (auto simp: id_used_def)
qed

lemma NextID_exact:
  fixes bm :: "'a::len word list"
  assumes "\<forall>n. id_used bm n \<longrightarrow> n < 65535"
  shows "unat (NextID bm) = NextID_from 0 bm"
proof -
  note s = NextID_from_id[of bm]
  have "NextID_from 0 bm \<le> 65535"
  proof (rule ccontr)
    assume "\<not> NextID_from 0 bm \<le> 65535"
    then have "0 < (65535::nat) \<and> 65535 < NextID_from 0 bm" by simp
    with s have "id_used bm 65535" by blast
    with assms show False by blast
  qed
  then show ?thesis by (simp add: NextID_def unat_of_nat)
qed

lemma NextID_unique:
  fixes bm :: "'a::len word list"
  assumes "\<forall>n. id_used bm n \<longrightarrow> n < 65535"
    and "0 < k" "\<not> id_used bm k" "\<forall>n. 0 < n \<and> n < k \<longrightarrow> id_used bm n"
  shows "unat (NextID bm) = k"
proof -
  note s = NextID_from_id[of bm]
  have "\<not> NextID_from 0 bm < k" using s assms by blast
  moreover have "\<not> k < NextID_from 0 bm" using s assms by blast
  ultimately show ?thesis using NextID_exact[OF assms(1)] by simp
qed

lemma id_used_Nil: "id_used ([] :: 'a::len word list) n = False"
  by (simp add: id_used_def)

lemma id_bound_UseID:
  fixes bm :: "'a::len word list"
  assumes "\<forall>n. id_used bm n \<longrightarrow> n < 65535"
  shows "\<forall>n. id_used (snd (UseID idx bm)) n \<longrightarrow> n < 65535"
proof (cases "idx = 0 \<or> idx = 0xFFFF")
  case True
  then show ?thesis using assms by (auto simp: UseID_def)
next
  case False
  have "unat idx \<noteq> 65535"
  proof
    assume "unat idx = 65535"
    then have "(of_nat (unat idx) :: 16 word) = of_nat 65535" by simp
    then have "idx = 0xFFFF" by simp
    with False show False by simp
  qed
  moreover have "unat idx < 2 ^ 16" using unsigned_less[of idx, where 'a=nat] by simp
  ultimately have "unat idx < 65535" by simp
  then show ?thesis using assms False by (simp add: id_used_UseID)
qed

lemma id_bound_ReleaseID:
  fixes bm :: "'a::len word list"
  assumes "\<forall>n. id_used bm n \<longrightarrow> n < 65535" "ReleaseID idx bm = Inr bm'"
  shows "\<forall>n. id_used bm' n \<longrightarrow> n < 65535"
proof -
  have "bit_at bm' p \<longrightarrow> bit_at bm p" for p
    using assms(2)
    by (auto simp: ReleaseID_def Let_def bit_unset_bit_iff bit_at_def nth_list_update split: if_splits)
  then show ?thesis using assms(1) by (auto simp: id_used_def)
qed

lemma id_used_UseID_num:
  fixes bm :: "'a::len word list"
  shows "id_used (snd (UseID 1 bm)) n = (id_used bm n \<or> n = 1)"
    "id_used (snd (UseID 2 bm)) n = (id_used bm n \<or> n = 2)"
    "id_used (snd (UseID 3 bm)) n = (id_used bm n \<or> n = 3)"
    "id_used (snd (UseID 4 bm)) n = (id_used bm n \<or> n = 4)"
    "id_used (snd (UseID 5 bm)) n = (id_used bm n \<or> n = 5)"
  using id_used_UseID[of 1 bm n] id_used_UseID[of 2 bm n] id_used_UseID[of 3 bm n]
    id_used_UseID[of 4 bm n] id_used_UseID[of 5 bm n]
  by simp_all

lemma unit_id_scenario:
  "\<exists>g. ReleaseID 3 (fold (\<lambda>i g. snd (UseID i g)) [1, 2, 3, 4, 5] ([] :: 'a::len word list)) = Inr g \<and>
       NextID g = 3 \<and> NextID (snd (UseID 3 g)) = 6"
proof -
  define g5 where "g5 = fold (\<lambda>i g. snd (UseID i g)) [1, 2, 3, 4, 5] ([] :: 'a word list)"
  have u5: "id_used g5 n = (n = 1 \<or> n = 2 \<or> n = 3 \<or> n = 4 \<or> n = 5)" for n
    unfolding g5_def by (simp add: id_used_UseID_num id_used_Nil)
  then have "id_used g5 (unat (3 :: 16 word))" by simp
  moreover have "(3 :: 16 word) \<noteq> 0" "(3 :: 16 word) \<noteq> 0xFFFF" by simp_all
  ultimately obtain g where
    r: "ReleaseID 3 g5 = Inr g" and ug: "\<forall>n. id_used g n = (id_used g5 n \<and> n \<noteq> unat (3 :: 16 word))"
    using id_used_ReleaseID[of 3 g5] by blast
  have ug': "id_used g n = (n = 1 \<or> n = 2 \<or> n = 4 \<or> n = 5)" for n
  proof -
    have "id_used g n = (id_used g5 n \<and> n \<noteq> 3)" using ug by simp
    then show ?thesis by (auto simp: u5)
  qed
  have "unat (NextID g) = 3"
  proof (rule NextID_unique)
    show "\<forall>n. id_used g n \<longrightarrow> n < 65535" by (auto simp: ug')
    show "(0::nat) < 3" by simp
    show "\<not> id_used g 3" by (simp add: ug')
    show "\<forall>n. 0 < n \<and> n < 3 \<longrightarrow> id_used g n" by (auto simp: ug')
  qed
  then have "unat (NextID g) = unat (3 :: 16 word)" by simp
  then have n3: "NextID g = 3" by (simp only: word_unat_eq_iff)
  have ug3: "id_used (snd (UseID 3 g)) n = (n = 1 \<or> n = 2 \<or> n = 3 \<or> n = 4 \<or> n = 5)" for n
    by (auto simp: id_used_UseID_num ug')
  have "unat (NextID (snd (UseID 3 g))) = 6"
  proof (rule NextID_unique)
    show "\<forall>n. id_used (snd (UseID 3 g)) n \<longrightarrow> n < 65535" by (auto simp: ug3)
    show "(0::nat) < 6" by simp
    show "\<not> id_used (snd (UseID 3 g)) 6" by (simp add: ug3)
    show "\<forall>n. 0 < n \<and> n < 6 \<longrightarrow> id_used (snd (UseID 3 g)) n" by (auto simp: ug3)
  qed
  then have "unat (NextID (snd (UseID 3 g))) = unat (6 :: 16 word)" by simp
  then have n6: "NextID (snd (UseID 3 g)) = 6" by (simp only: word_unat_eq_iff)
  show ?thesis using r n3 n6 unfolding g5_def by blast
qed

text \<open>
  Claim C8. In a bitmap in which only unit numbers below \<^verbatim>\<open>UINT16_MAX\<close> are marked (which
  \<^verbatim>\<open>UseID\<close> and \<^verbatim>\<open>ReleaseID\<close> maintain), \<^verbatim>\<open>NextID\<close> returns the smallest positive
  unit number that is not marked used, and one past the end of the bitmap when every
  tracked bit is used. After using 1 to 5 and releasing 3, \<^verbatim>\<open>NextID\<close> is 3, and once 3 is
  used again it is 6.
\<close>

theorem NextID_smallest_free:
  fixes bm :: "'a::len word list"
  shows "((\<forall>n. id_used bm n \<longrightarrow> n < 65535) \<longrightarrow>
           0 < unat (NextID bm) \<and> \<not> id_used bm (unat (NextID bm)) \<and>
           (\<forall>n. 0 < n \<and> n < unat (NextID bm) \<longrightarrow> id_used bm n) \<and>
           ((\<forall>n. 0 < n \<and> n \<le> length bm * LENGTH('a) \<longrightarrow> id_used bm n) \<longrightarrow>
              unat (NextID bm) = length bm * LENGTH('a) + 1)) \<and>
         (\<exists>g. ReleaseID 3 (fold (\<lambda>i g. snd (UseID i g)) [1, 2, 3, 4, 5] ([] :: 'a word list)) = Inr g \<and>
              NextID g = 3 \<and> NextID (snd (UseID 3 g)) = 6)"
proof -
  have gen: "0 < unat (NextID bm) \<and> \<not> id_used bm (unat (NextID bm)) \<and>
           (\<forall>n. 0 < n \<and> n < unat (NextID bm) \<longrightarrow> id_used bm n) \<and>
           ((\<forall>n. 0 < n \<and> n \<le> length bm * LENGTH('a) \<longrightarrow> id_used bm n) \<longrightarrow>
              unat (NextID bm) = length bm * LENGTH('a) + 1)"
    if inv: "\<forall>n. id_used bm n \<longrightarrow> n < 65535"
  proof -
    note e = NextID_exact[OF inv]
    note s = NextID_from_id[of bm]
    have "unat (NextID bm) = length bm * LENGTH('a) + 1"
      if all: "\<forall>n. 0 < n \<and> n \<le> length bm * LENGTH('a) \<longrightarrow> id_used bm n"
    proof -
      have "\<not> NextID_from 0 bm \<le> length bm * LENGTH('a)" using s all by blast
      then show ?thesis using s e by simp
    qed
    then show ?thesis using s e by simp
  qed
  show ?thesis using gen unit_id_scenario[where 'a='a] by blast
qed

theorem NextID_smallest_free_witness:
  "\<not> id_used [27 :: 64 word] (unat (NextID [27 :: 64 word])) \<and> NextID [27 :: 64 word] = 3
   \<and> id_used [27 :: 64 word] 1 \<and> id_used [27 :: 64 word] 2"
proof -
  have inv: "\<forall>n. id_used [27 :: 64 word] n \<longrightarrow> n < 65535"
  proof (intro allI impI)
    fix n assume "id_used [27 :: 64 word] n"
    then have "(n - 1) div 64 < 1" by (simp add: id_used_def bit_at_def)
    then show "n < 65535" by simp
  qed
  have "\<not> id_used [27 :: 64 word] (unat (NextID [27 :: 64 word]))"
    using NextID_smallest_free[of "[27 :: 64 word]"] inv by blast
  moreover have "NextID [27 :: 64 word] = 3" by code_simp
  moreover have "id_used [27 :: 64 word] 1 \<and> id_used [27 :: 64 word] 2" by code_simp
  ultimately show ?thesis by blast
qed

subsection \<open>CheckVehicleBreakdown\<close>

lemma breakdown_table_length: "length breakdown_chance_table = 64"
  by (simp add: breakdown_chance_table_def)

lemma breakdown_table_sorted: "sorted breakdown_chance_table"
  unfolding breakdown_chance_table_def by (simp only: sorted2 sorted1) simp

lemma reliability_decrease:
  fixes a b :: "16 word"
  shows "unat (of_int (max (uint a - uint b) 0) :: 16 word) = unat a - unat b"
proof (cases "uint b \<le> uint a")
  case True
  then have "max (uint a - uint b) 0 = uint (a - b)" by (simp add: uint_sub_if')
  moreover have "unat (a - b) = unat a - unat b" using True by (simp add: unat_sub word_le_def)
  ultimately show ?thesis by simp
next
  case False
  then have "unat a \<le> unat b" by (simp add: word_le_nat_alt[symmetric] word_le_def)
  then show ?thesis using False by simp
qed

lemma GB_bound:
  fixes r :: "32 word"
  shows "unat (GB r s n) < 2 ^ n"
proof -
  have "GB r s n = take_bit n (drop_bit s r)" by (simp add: GB_def take_bit_eq_mask)
  then show ?thesis by (simp add: unsigned_take_bit_eq)
qed

lemma breakdown_ctr_value:
  fixes r :: "32 word"
  shows "unat (ucast (GB r 16 6 + 0x3F) :: 8 word) = unat (GB r 16 6) + 0x3F"
proof -
  have b: "unat (GB r 16 6) < 64" using GB_bound[of r 16 6] by simp
  then have "unat (GB r 16 6 + 0x3F) = unat (GB r 16 6) + 0x3F"
    by (simp add: unat_word_ariths)
  then show ?thesis using b by (simp add: unsigned_ucast_eq take_bit_eq_mod)
qed

lemma breakdown_delay_value:
  fixes r :: "32 word"
  shows "unat (ucast (GB r 24 7 + 0x80) :: 8 word) = unat (GB r 24 7) + 0x80"
proof -
  have b: "unat (GB r 24 7) < 128" using GB_bound[of r 24 7] by simp
  then have "unat (GB r 24 7 + 0x80) = unat (GB r 24 7) + 0x80"
    by (simp add: unat_word_ariths)
  then show ?thesis using b by (simp add: unsigned_ucast_eq take_bit_eq_mod)
qed

lemma ClampTo_uint8_unat:
  assumes "0 \<le> x"
  shows "unat (ClampTo_uint8 x) = min 255 (nat x)"
proof (cases "255 < x")
  case True
  then show ?thesis using assms by (simp add: ClampTo_uint8_def)
next
  case False
  have "unat (of_nat (nat x) :: 8 word) = nat x mod 2 ^ 8"
    by (simp add: unat_of_nat del: of_nat_nat)
  moreover have "of_nat (nat x) = (of_int x :: 8 word)" using assms by simp
  ultimately have "unat (of_int x :: 8 word) = nat x" using False assms by simp
  then show ?thesis using False assms by (simp add: ClampTo_uint8_def)
qed

lemma ClampTo_uint16_unat:
  assumes "0 \<le> x"
  shows "unat (ClampTo_uint16 x) = min 65535 (nat x)"
proof (cases "65535 < x")
  case True
  then show ?thesis using assms by (simp add: ClampTo_uint16_def)
next
  case False
  have "unat (of_nat (nat x) :: 16 word) = nat x mod 2 ^ 16"
    by (simp add: unat_of_nat del: of_nat_nat)
  moreover have "of_nat (nat x) = (of_int x :: 16 word)" using assms by simp
  ultimately have "unat (of_int x :: 16 word) = nat x" using False assms by simp
  then show ?thesis using False assms by (simp add: ClampTo_uint16_def)
qed

lemma top6_index:
  fixes w :: "16 word"
  shows "unat (drop_bit 10 w) = unat w div 1024" "unat (drop_bit 10 w) < 64"
proof -
  show e: "unat (drop_bit 10 w) = unat w div 1024"
    by (simp add: drop_bit_eq_div unat_div)
  have "unat w < 65536" using unsigned_less[of w, where 'a=nat] by simp
  then show "unat (drop_bit 10 w) < 64" by (simp add: e)
qed

text \<open>
  Claim C4. \<^verbatim>\<open>CheckVehicleBreakdown\<close> first lowers the reliability by
  \<^verbatim>\<open>reliability_spd_dec\<close>, stopping at 0, unless breakdowns are off together with the
  no-servicing setting. When the gate fails (a breakdown is counting, the vehicle is
  stopped, breakdowns are off, the speed is below 5, or the game is in the menu), no
  random number is drawn and the three breakdown fields keep their values. When the gate
  holds, exactly one random number \<open>r\<close> is drawn; the chance counter grows by 1, and by
  25 more when \<^verbatim>\<open>Chance16I(1, 25, r)\<close> holds, saturating at 255; the table is read at the
  top 6 bits of the adjusted reliability clamped to 16 bits; if that entry is at most the
  counter, \<^verbatim>\<open>breakdown_ctr\<close> becomes \<open>0x3F\<close> plus bits 16 to 21 of \<open>r\<close> (between \<open>0x3F\<close>
  and \<open>0x7E\<close>), \<^verbatim>\<open>breakdown_delay\<close> becomes \<open>0x80\<close> plus bits 24 to 30 of \<open>r\<close> (between
  \<open>0x80\<close> and \<open>0xFF\<close>), and the counter is reset to 0. The table has 64 entries and never
  decreases.
\<close>

theorem CheckVehicleBreakdown_roll:
  assumes "CheckVehicleBreakdown Chance16I settings game_mode v rng = (v', rng')"
  shows "unat (reliability v') =
           (if no_servicing_if_no_breakdowns settings \<and> vehicle_breakdowns settings = 0
            then unat (reliability v) else unat (reliability v) - unat (reliability_spd_dec v)) \<and>
         (\<not> breakdown_gate settings game_mode v \<longrightarrow>
            rng' = rng \<and> breakdown_ctr v' = breakdown_ctr v \<and>
            breakdown_delay v' = breakdown_delay v \<and> breakdown_chance v' = breakdown_chance v) \<and>
         (breakdown_gate settings game_mode v \<longrightarrow>
            rng' = stl rng \<and>
            (let r = shd rng;
                 c = min 255 (unat (breakdown_chance v) + 1 + (if Chance16I 1 25 r then 25 else 0));
                 i = min 65535 (adjusted_reliability settings (type v) (unat (reliability v'))) div 1024
             in i < 64 \<and>
                (if unat (breakdown_chance_table ! i) \<le> c
                 then unat (breakdown_ctr v') = 0x3F + unat (GB r 16 6) \<and>
                      0x3F \<le> unat (breakdown_ctr v') \<and> unat (breakdown_ctr v') \<le> 0x7E \<and>
                      unat (breakdown_delay v') = 0x80 + unat (GB r 24 7) \<and>
                      0x80 \<le> unat (breakdown_delay v') \<and> unat (breakdown_delay v') \<le> 0xFF \<and>
                      breakdown_chance v' = 0
                 else unat (breakdown_chance v') = c \<and> breakdown_ctr v' = breakdown_ctr v \<and>
                      breakdown_delay v' = breakdown_delay v))) \<and>
         length breakdown_chance_table = 64 \<and> sorted breakdown_chance_table"
proof -
  define v1 where "v1 = (if \<not> no_servicing_if_no_breakdowns settings \<or> vehicle_breakdowns settings \<noteq> 0
                then v\<lparr>reliability := of_int (max (uint (reliability v) - uint (reliability_spd_dec v)) 0)\<rparr>
                else v)"
  define r where "r = shd rng"
  define chance where "chance = (if Chance16I 1 25 r then uint (breakdown_chance v1) + 1 + 25
                                 else uint (breakdown_chance v1) + 1)"
  define v2 where "v2 = v1\<lparr>breakdown_chance := ClampTo_uint8 chance\<rparr>"
  define rel where "rel = (if vehicle_breakdowns settings = 1
       then (if type v2 = VEH_SHIP then uint (reliability v2) + 0x6666 else uint (reliability v2)) + 0x6666
       else (if type v2 = VEH_SHIP then uint (reliability v2) + 0x6666 else uint (reliability v2)))"
  define c where "c = min 255 (unat (breakdown_chance v) + 1 + (if Chance16I 1 25 r then 25 else 0))"
  define i where "i = min 65535 (adjusted_reliability settings (type v) (unat (reliability v'))) div 1024"
  have eq: "CheckVehicleBreakdown Chance16I settings game_mode v rng =
     (if breakdown_ctr v1 \<noteq> 0 \<or> Stopped \<in> vehstatus v1 \<or>
            vehicle_breakdowns settings < 1 \<or> cur_speed v1 < 5 \<or> game_mode = GM_MENU
      then (v1, rng)
      else if breakdown_chance_table ! unat (drop_bit 10 (ClampTo_uint16 rel)) \<le> breakdown_chance v2
           then (v2\<lparr>breakdown_ctr := ucast (GB r 16 6 + 0x3F),
                    breakdown_delay := ucast (GB r 24 7 + 0x80),
                    breakdown_chance := 0\<rparr>, stl rng)
           else (v2, stl rng))"
    by (simp only: CheckVehicleBreakdown_def Let_def v1_def v2_def r_def chance_def rel_def if_distrib[of "\<lambda>x. x + 25"])
  have v1_rel: "unat (reliability v1) =
           (if no_servicing_if_no_breakdowns settings \<and> vehicle_breakdowns settings = 0
            then unat (reliability v) else unat (reliability v) - unat (reliability_spd_dec v))"
    by (simp add: v1_def reliability_decrease)
  have v1_same: "breakdown_ctr v1 = breakdown_ctr v" "vehstatus v1 = vehstatus v"
      "cur_speed v1 = cur_speed v" "breakdown_delay v1 = breakdown_delay v"
      "breakdown_chance v1 = breakdown_chance v" "type v1 = type v"
    by (simp_all add: v1_def)
  have gate_eq: "(breakdown_ctr v1 \<noteq> 0 \<or> Stopped \<in> vehstatus v1 \<or>
            vehicle_breakdowns settings < 1 \<or> cur_speed v1 < 5 \<or> game_mode = GM_MENU)
         = (\<not> breakdown_gate settings game_mode v)"
    by (auto simp: breakdown_gate_def v1_same not_le not_less)
  have relv: "reliability v' = reliability v1"
  proof -
    have "reliability (fst (CheckVehicleBreakdown Chance16I settings game_mode v rng)) = reliability v1"
      unfolding eq by (simp add: v2_def)
    then show ?thesis using assms by simp
  qed
  have v2_chance: "unat (breakdown_chance v2) = c"
  proof -
    have "0 \<le> chance" by (simp add: chance_def)
    moreover have "nat chance = unat (breakdown_chance v) + 1 + (if Chance16I 1 25 r then 25 else 0)"
      by (simp add: chance_def v1_same nat_add_distrib)
    ultimately show ?thesis by (simp add: v2_def c_def ClampTo_uint8_unat)
  qed
  have idx: "unat (drop_bit 10 (ClampTo_uint16 rel)) = i" and i64: "i < 64"
  proof -
    have "0 \<le> rel" by (simp add: rel_def)
    moreover have "nat rel = adjusted_reliability settings (type v) (unat (reliability v1))"
      by (simp add: rel_def v2_def v1_same adjusted_reliability_def nat_add_distrib)
    ultimately have "unat (ClampTo_uint16 rel) = min 65535 (adjusted_reliability settings (type v) (unat (reliability v1)))"
      by (simp add: ClampTo_uint16_unat)
    then show "unat (drop_bit 10 (ClampTo_uint16 rel)) = i" by (simp add: top6_index(1) i_def relv)
    then show "i < 64" using top6_index(2)[of "ClampTo_uint16 rel"] by simp
  qed
  have cmp: "(breakdown_chance_table ! i \<le> breakdown_chance v2) = (unat (breakdown_chance_table ! i) \<le> c)"
    by (simp add: word_le_nat_alt v2_chance)
  have ctr: "0x3F \<le> unat (ucast (GB r 16 6 + 0x3F) :: 8 word) \<and> unat (ucast (GB r 16 6 + 0x3F) :: 8 word) \<le> 0x7E"
    using GB_bound[of r 16 6] by (simp add: breakdown_ctr_value)
  have dly: "0x80 \<le> unat (ucast (GB r 24 7 + 0x80) :: 8 word) \<and> unat (ucast (GB r 24 7 + 0x80) :: 8 word) \<le> 0xFF"
    using GB_bound[of r 24 7] by (simp add: breakdown_delay_value)
  have tab: "length breakdown_chance_table = 64 \<and> sorted breakdown_chance_table"
    by (simp add: breakdown_table_length breakdown_table_sorted)
  have A: "unat (reliability v') =
           (if no_servicing_if_no_breakdowns settings \<and> vehicle_breakdowns settings = 0
            then unat (reliability v) else unat (reliability v) - unat (reliability_spd_dec v))"
    using v1_rel by (simp only: relv)
  have B: "\<not> breakdown_gate settings game_mode v \<longrightarrow>
            rng' = rng \<and> breakdown_ctr v' = breakdown_ctr v \<and>
            breakdown_delay v' = breakdown_delay v \<and> breakdown_chance v' = breakdown_chance v"
  proof
    assume "\<not> breakdown_gate settings game_mode v"
    then have "v' = v1" "rng' = rng" using assms eq gate_eq by simp_all
    then show "rng' = rng \<and> breakdown_ctr v' = breakdown_ctr v \<and>
            breakdown_delay v' = breakdown_delay v \<and> breakdown_chance v' = breakdown_chance v"
      by (simp add: v1_same)
  qed
  have C: "breakdown_gate settings game_mode v \<longrightarrow>
            rng' = stl rng \<and>
            (i < 64 \<and>
                (if unat (breakdown_chance_table ! i) \<le> c
                 then unat (breakdown_ctr v') = 0x3F + unat (GB r 16 6) \<and>
                      0x3F \<le> unat (breakdown_ctr v') \<and> unat (breakdown_ctr v') \<le> 0x7E \<and>
                      unat (breakdown_delay v') = 0x80 + unat (GB r 24 7) \<and>
                      0x80 \<le> unat (breakdown_delay v') \<and> unat (breakdown_delay v') \<le> 0xFF \<and>
                      breakdown_chance v' = 0
                 else unat (breakdown_chance v') = c \<and> breakdown_ctr v' = breakdown_ctr v \<and>
                      breakdown_delay v' = breakdown_delay v))"
  proof
    assume gate: "breakdown_gate settings game_mode v"
    show "rng' = stl rng \<and>
            (i < 64 \<and>
                (if unat (breakdown_chance_table ! i) \<le> c
                 then unat (breakdown_ctr v') = 0x3F + unat (GB r 16 6) \<and>
                      0x3F \<le> unat (breakdown_ctr v') \<and> unat (breakdown_ctr v') \<le> 0x7E \<and>
                      unat (breakdown_delay v') = 0x80 + unat (GB r 24 7) \<and>
                      0x80 \<le> unat (breakdown_delay v') \<and> unat (breakdown_delay v') \<le> 0xFF \<and>
                      breakdown_chance v' = 0
                 else unat (breakdown_chance v') = c \<and> breakdown_ctr v' = breakdown_ctr v \<and>
                      breakdown_delay v' = breakdown_delay v))"
    proof (cases "unat (breakdown_chance_table ! i) \<le> c")
      case True
      then have res: "v' = v2\<lparr>breakdown_ctr := ucast (GB r 16 6 + 0x3F),
                    breakdown_delay := ucast (GB r 24 7 + 0x80),
                    breakdown_chance := 0\<rparr>" "rng' = stl rng"
        using assms eq gate_eq gate cmp idx by simp_all
      have f: "breakdown_ctr v' = ucast (GB r 16 6 + 0x3F)" "breakdown_delay v' = ucast (GB r 24 7 + 0x80)"
          "breakdown_chance v' = 0"
        by (simp_all add: res(1))
      show ?thesis using True i64 ctr dly res(2)
        by (simp only: f breakdown_ctr_value breakdown_delay_value if_True) simp
    next
      case False
      then have res: "v' = v2" "rng' = stl rng"
        using assms eq gate_eq gate cmp idx by simp_all
      have f: "breakdown_ctr v' = breakdown_ctr v" "breakdown_delay v' = breakdown_delay v"
          "unat (breakdown_chance v') = c"
        using v2_chance by (simp_all add: res(1) v2_def v1_same)
      show ?thesis using False i64 res(2) f by simp
    qed
  qed
  show ?thesis
    unfolding Let_def using A B C tab unfolding r_def c_def i_def by blast
qed

theorem CheckVehicleBreakdown_roll_witness:
  "unat (reliability (fst (CheckVehicleBreakdown (\<lambda>a b r. False)
       \<lparr>no_servicing_if_no_breakdowns = False, vehicle_breakdowns = 2\<rparr> GM_NORMAL
       ((Vehicle_new 0 VEH_ROAD)\<lparr>reliability := 1000, reliability_spd_dec := 20,
           breakdown_chance := 2, cur_speed := 10\<rparr>) (sconst 0)))) = 980 \<and>
   snd (CheckVehicleBreakdown (\<lambda>a b r. False)
       \<lparr>no_servicing_if_no_breakdowns = False, vehicle_breakdowns = 2\<rparr> GM_NORMAL
       ((Vehicle_new 0 VEH_ROAD)\<lparr>reliability := 1000, reliability_spd_dec := 20,
           breakdown_chance := 2, cur_speed := 10\<rparr>) (sconst 0)) = stl (sconst 0)"
proof -
  let ?s = "\<lparr>no_servicing_if_no_breakdowns = False, vehicle_breakdowns = 2\<rparr>"
  let ?v = "(Vehicle_new 0 VEH_ROAD)\<lparr>reliability := 1000, reliability_spd_dec := 20,
           breakdown_chance := 2, cur_speed := 10\<rparr>"
  let ?res = "CheckVehicleBreakdown (\<lambda>a b r. False) ?s GM_NORMAL ?v (sconst 0)"
  have g: "breakdown_gate ?s GM_NORMAL ?v"
    by (simp add: breakdown_gate_def Vehicle_new_def)
  have e: "?res = (fst ?res, snd ?res)" by simp
  from CheckVehicleBreakdown_roll[OF e] g
  have "unat (reliability (fst ?res)) =
           (if no_servicing_if_no_breakdowns ?s \<and> vehicle_breakdowns ?s = 0
            then unat (reliability ?v) else unat (reliability ?v) - unat (reliability_spd_dec ?v))"
     and "snd ?res = stl (sconst 0)"
    by blast+
  then show ?thesis by (simp add: Vehicle_new_def)
qed

lemma CheckVehicleBreakdown_example:
  "CheckVehicleBreakdown (\<lambda>a b r. False)
       \<lparr>no_servicing_if_no_breakdowns = False, vehicle_breakdowns = 2\<rparr> GM_NORMAL
       ((Vehicle_new 0 VEH_ROAD)\<lparr>reliability := 1000, reliability_spd_dec := 20,
           breakdown_chance := 2, cur_speed := 10\<rparr>) (sconst 0)
   = ((Vehicle_new 0 VEH_ROAD)\<lparr>reliability := 980, reliability_spd_dec := 20,
           breakdown_chance := 0, cur_speed := 10, breakdown_ctr := 0x3F, breakdown_delay := 0x80\<rparr>,
      sconst 0)"
  by (simp add: CheckVehicleBreakdown_def Vehicle_new_def Let_def breakdown_chance_table_def
      ClampTo_uint8_def ClampTo_uint16_def GB_def)

subsection \<open>Entering a depot\<close>

lemma consist_next_eq:
  assumes "\<And>j. map_option nextv (P' j) = map_option nextv (P j)"
  shows "consist P' p vs = consist P p vs"
proof (induction vs arbitrary: p)
  case Nil
  show ?case by simp
next
  case (Cons x xs)
  show ?case
  proof (cases "P x")
    case None
    with assms[of x] have "P' x = None" by simp
    with None show ?thesis by simp
  next
    case (Some v)
    with assms[of x] obtain v' where v': "P' x = Some v'" "nextv v' = nextv v" by auto
    with Some Cons.IH[of "nextv v"] show ?thesis by simp
  qed
qed

lemma serviced_like_refl: "serviced_like v v"
  by (simp add: serviced_like_def)

lemma serviced_like_service: "serviced_like v (service_vehicle e s v)"
  by (simp add: serviced_like_def service_vehicle_def Let_def)

lemma serviced_like_trans:
  assumes "serviced_like a b" "serviced_like b d"
  shows "serviced_like a d"
proof -
  from assms(1) have e1: "b = a\<lparr>date_of_last_service := date_of_last_service b,
              date_of_last_service_newgrf := date_of_last_service_newgrf b,
              breakdowns_since_last_service := breakdowns_since_last_service b,
              reliability := reliability b,
              breakdown_chance := breakdown_chance b\<rparr>" by (simp add: serviced_like_def)
  from assms(2) have e2: "d = b\<lparr>date_of_last_service := date_of_last_service d,
              date_of_last_service_newgrf := date_of_last_service_newgrf d,
              breakdowns_since_last_service := breakdowns_since_last_service d,
              reliability := reliability d,
              breakdown_chance := breakdown_chance d\<rparr>" by (simp add: serviced_like_def)
  have "d = a\<lparr>date_of_last_service := date_of_last_service d,
              date_of_last_service_newgrf := date_of_last_service_newgrf d,
              breakdowns_since_last_service := breakdowns_since_last_service d,
              reliability := reliability d,
              breakdown_chance := breakdown_chance d\<rparr>"
    by (subst e2, subst e1) simp
  then show ?thesis by (simp add: serviced_like_def)
qed

lemma serviced_like_fields:
  assumes "serviced_like v v'"
  shows "vehstatus v' = vehstatus v" "current_order v' = current_order v" "owner v' = owner v"
    "type v' = type v" "tile v' = tile v" "dest_tile v' = dest_tile v"
    "round_trip_time v' = round_trip_time v"
    "depot_unbunching_last_departure v' = depot_unbunching_last_departure v"
    "nextv v' = nextv v" "first v' = first v" "cur_speed v' = cur_speed v"
proof -
  from assms have e: "v' = v\<lparr>date_of_last_service := date_of_last_service v',
              date_of_last_service_newgrf := date_of_last_service_newgrf v',
              breakdowns_since_last_service := breakdowns_since_last_service v',
              reliability := reliability v',
              breakdown_chance := breakdown_chance v'\<rparr>" by (simp add: serviced_like_def)
  show "vehstatus v' = vehstatus v" by (subst e) simp
  show "current_order v' = current_order v" by (subst e) simp
  show "owner v' = owner v" by (subst e) simp
  show "type v' = type v" by (subst e) simp
  show "tile v' = tile v" by (subst e) simp
  show "dest_tile v' = dest_tile v" by (subst e) simp
  show "round_trip_time v' = round_trip_time v" by (subst e) simp
  show "depot_unbunching_last_departure v' = depot_unbunching_last_departure v" by (subst e) simp
  show "nextv v' = nextv v" by (subst e) simp
  show "first v' = first v" by (subst e) simp
  show "cur_speed v' = cur_speed v" by (subst e) simp
qed

lemma VehicleServiceInDepot_frame:
  assumes "consist (vehicles s) (Some i) vs"
  shows "\<exists>s'. VehicleServiceInDepot e i s = Some (Inr s') \<and>
           s' = s\<lparr>vehicles := vehicles s'\<rparr> \<and>
           (\<forall>j. case vehicles s j of None \<Rightarrow> vehicles s' j = None
                 | Some v \<Rightarrow> (\<exists>v'. vehicles s' j = Some v' \<and> serviced_like v v'))"
  using assms
proof (induction vs arbitrary: i s)
  case Nil
  then show ?case by simp
next
  case (Cons x xs)
  from Cons.prems obtain v where x: "x = i" and v: "vehicles s i = Some v"
    and c: "consist (vehicles s) (nextv v) xs"
    by (auto split: option.splits)
  define s1 where "s1 = put_vehicle i (service_vehicle e s v) s"
  have s1w: "s1 = s\<lparr>vehicles := vehicles s1\<rparr>" by (simp add: s1_def put_vehicle_def)
  have s1v: "vehicles s1 = (vehicles s)(i \<mapsto> service_vehicle e s v)" by (simp add: s1_def put_vehicle_def)
  have fr1: "case vehicles s j of None \<Rightarrow> vehicles s1 j = None
                 | Some w \<Rightarrow> (\<exists>w'. vehicles s1 j = Some w' \<and> serviced_like w w')" for j
    using v by (auto simp: s1v serviced_like_service serviced_like_refl split: option.splits)
  have nx: "map_option nextv (vehicles s1 j) = map_option nextv (vehicles s j)" for j
    using v by (simp add: s1v service_vehicle_def Let_def)
  have c1: "consist (vehicles s1) (nextv v) xs" using c consist_next_eq[of "vehicles s1" "vehicles s", OF nx] by simp
  show ?case
  proof (cases "nextv v")
    case None
    then have "VehicleServiceInDepot e i s = Some (Inr s1)"
      using v by (subst VehicleServiceInDepot.simps) (simp add: s1_def Let_def)
    then show ?thesis using s1w fr1 by blast
  next
    case (Some n)
    with c1 obtain ys where xs: "xs = n # ys" and cn: "consist (vehicles s1) (Some n) xs"
      by (cases xs) auto
    then obtain u where u: "vehicles s1 n = Some u" by (auto split: option.splits)
    show ?thesis
    proof (cases "HasEngineType e u")
      case False
      then have "VehicleServiceInDepot e i s = Some (Inr s1)"
        using v Some u by (subst VehicleServiceInDepot.simps) (simp add: s1_def[symmetric] Let_def)
      then show ?thesis using s1w fr1 by blast
    next
      case True
      then have r: "VehicleServiceInDepot e i s = VehicleServiceInDepot e n s1"
        using v Some u by (subst VehicleServiceInDepot.simps) (simp add: s1_def[symmetric] Let_def)
      from Cons.IH[OF cn] obtain s' where
        s': "VehicleServiceInDepot e n s1 = Some (Inr s')" "s' = s1\<lparr>vehicles := vehicles s'\<rparr>"
        and fr2: "\<And>j. case vehicles s1 j of None \<Rightarrow> vehicles s' j = None
                 | Some w \<Rightarrow> (\<exists>w'. vehicles s' j = Some w' \<and> serviced_like w w')"
        by blast
      have w: "s' = s\<lparr>vehicles := vehicles s'\<rparr>"
        by (subst s'(2), subst s1w) simp
      have "case vehicles s j of None \<Rightarrow> vehicles s' j = None
                 | Some w \<Rightarrow> (\<exists>w'. vehicles s' j = Some w' \<and> serviced_like w w')" for j
      proof (cases "vehicles s j")
        case None
        with fr1[of j] have "vehicles s1 j = None" by simp
        with fr2[of j] have "vehicles s' j = None" by simp
        with None show ?thesis by simp
      next
        case (Some a)
        with fr1[of j] obtain b where b: "vehicles s1 j = Some b" "serviced_like a b" by auto
        with fr2[of j] obtain d where d: "vehicles s' j = Some d" "serviced_like b d" by auto
        have "serviced_like a d" using b(2) d(2) by (rule serviced_like_trans)
        with Some d show ?thesis by simp
      qed
      with r s'(1) w show ?thesis by simp
    qed
  qed
qed

lemma depot_arrival_result:
  assumes v: "vehicles s i = Some v" and f: "first v = Some i"
    and t: "type v \<noteq> VEH_EFFECT" "type v \<noteq> VEH_DISASTER"
    and c: "consist (vehicles s) (Some i) vs"
  shows "\<exists>s2 v2. depot_arrival e i s = Some (Inr s2) \<and> vehicles s2 i = Some v2 \<and>
      vehstatus v2 = insert Stopped (insert Hidden (vehstatus v)) \<and>
      current_order v2 = current_order v \<and> owner v2 = owner v \<and> type v2 = type v \<and>
      tile v2 = tile v \<and> dest_tile v2 = dest_tile v \<and>
      round_trip_time v2 = round_trip_time v \<and>
      depot_unbunching_last_departure v2 = depot_unbunching_last_departure v \<and>
      vehicles_to_autoreplace s2 = (vehicles_to_autoreplace s)(i \<mapsto> Stopped \<notin> vehstatus v) \<and>
      TimerGameTick_counter s2 = TimerGameTick_counter s \<and> local_company s2 = local_company s \<and>
      current_company s2 = current_company s \<and> log s2 = log s"
proof -
  define v0 where "v0 = v\<lparr>vehstatus := insert Hidden (vehstatus v), cur_speed := 0\<rparr>"
  define s0 where "s0 = put_vehicle i v0 s"
  have s0v: "vehicles s0 = (vehicles s)(i \<mapsto> v0)" by (simp add: s0_def put_vehicle_def)
  have nx: "map_option nextv (vehicles s0 j) = map_option nextv (vehicles s j)" for j
    using v by (simp add: s0v v0_def)
  have c0: "consist (vehicles s0) (Some i) vs"
    using c consist_next_eq[of "vehicles s0" "vehicles s", OF nx] by simp
  from VehicleServiceInDepot_frame[OF c0, of e] obtain s1 where
    s1: "VehicleServiceInDepot e i s0 = Some (Inr s1)" and w1: "s1 = s0\<lparr>vehicles := vehicles s1\<rparr>"
    and fr: "\<And>j. case vehicles s0 j of None \<Rightarrow> vehicles s1 j = None
                 | Some w \<Rightarrow> (\<exists>w'. vehicles s1 j = Some w' \<and> serviced_like w w')"
    by blast
  from fr[of i] obtain v1 where v1: "vehicles s1 i = Some v1" and sl: "serviced_like v0 v1"
    by (auto simp: s0v)
  note fl = serviced_like_fields[OF sl]
  define v2 where "v2 = v1\<lparr>vehstatus := insert Stopped (vehstatus v1)\<rparr>"
  define s2 where "s2 = put_vehicle i v2
                 (s1\<lparr>vehicles_to_autoreplace := (vehicles_to_autoreplace s1)(i \<mapsto> Stopped \<notin> vehstatus v1)\<rparr>)"
  have e2: "VehicleEnteredDepotThisTick i s1 = Inr s2"
    using v1 by (simp add: VehicleEnteredDepotThisTick_def s2_def v2_def)
  have arr: "depot_arrival e i s = Some (Inr s2)"
    using v f t s1 e2 by (simp add: depot_arrival_def s0_def[symmetric] v0_def[symmetric])
  have g1: "vehicles_to_autoreplace s1 = vehicles_to_autoreplace s" "TimerGameTick_counter s1 = TimerGameTick_counter s"
      "local_company s1 = local_company s" "current_company s1 = current_company s" "log s1 = log s"
    by (subst w1, simp add: s0_def put_vehicle_def)+
  have "vehicles s2 i = Some v2" by (simp add: s2_def put_vehicle_def)
  moreover have "vehstatus v2 = insert Stopped (insert Hidden (vehstatus v))"
    by (simp add: v2_def fl v0_def)
  moreover have "current_order v2 = current_order v" "owner v2 = owner v" "type v2 = type v"
      "tile v2 = tile v" "dest_tile v2 = dest_tile v" "round_trip_time v2 = round_trip_time v"
      "depot_unbunching_last_departure v2 = depot_unbunching_last_departure v"
    by (simp_all add: v2_def fl v0_def)
  moreover have "vehicles_to_autoreplace s2 = (vehicles_to_autoreplace s)(i \<mapsto> Stopped \<notin> vehstatus v)"
    by (simp add: s2_def put_vehicle_def g1 fl v0_def)
  moreover have "TimerGameTick_counter s2 = TimerGameTick_counter s" "local_company s2 = local_company s"
      "current_company s2 = current_company s" "log s2 = log s"
    by (simp_all add: s2_def put_vehicle_def g1)
  ultimately show ?thesis using arr by blast
qed

lemma depot_refit_result:
  assumes v: "vehicles s i = Some v" and fr: "refit_frame e"
  shows "\<exists>s1 v1 L. depot_refit e i s = Inr s1 \<and> vehicles s1 i = Some v1 \<and>
      vehstatus v1 = vehstatus v \<and> owner v1 = owner v \<and> current_order v1 = current_order v \<and>
      round_trip_time v1 = round_trip_time v \<and>
      depot_unbunching_last_departure v1 = depot_unbunching_last_departure v \<and>
      vehicles_to_autoreplace s1 =
        (if refit_fails e i s then (vehicles_to_autoreplace s)(i \<mapsto> False) else vehicles_to_autoreplace s) \<and>
      local_company s1 = local_company s \<and> TimerGameTick_counter s1 = TimerGameTick_counter s \<and>
      log s1 = log s @ L \<and>
      (refit_fails e i s \<and> owner v = local_company s \<longrightarrow>
         EvAdviceNews RefitFailed STR_NEWS_ORDER_REFIT_FAILED None i \<in> set L)"
proof (cases "refit_cargo (current_order v)")
  case None
  then have "depot_refit e i s = Inr s" "\<not> refit_fails e i s"
    using v by (simp_all add: depot_refit_def refit_fails_def)
  then show ?thesis using v by auto
next
  case (Some c)
  define sc where "sc = s\<lparr>current_company := owner v\<rparr>"
  define cost where "cost = fst (CmdRefitVehicle e i c sc)"
  define s1 where "s1 = (snd (CmdRefitVehicle e i c sc))\<lparr>log := log sc\<rparr>"
  define s2 where "s2 = emit [EvRefit i (owner v)] (s1\<lparr>current_company := current_company s\<rparr>)"
  have scv: "vehicles sc i = Some v" by (simp add: sc_def v)
  from fr have frc: "vehicles_to_autoreplace (snd (CmdRefitVehicle e i c sc)) = vehicles_to_autoreplace sc"
      "local_company (snd (CmdRefitVehicle e i c sc)) = local_company sc"
      "TimerGameTick_counter (snd (CmdRefitVehicle e i c sc)) = TimerGameTick_counter sc"
    and "\<exists>v'. vehicles (snd (CmdRefitVehicle e i c sc)) i = Some v' \<and>
              vehstatus v' = vehstatus v \<and> owner v' = owner v \<and>
              current_order v' = current_order v \<and>
              round_trip_time v' = round_trip_time v \<and>
              depot_unbunching_last_departure v' = depot_unbunching_last_departure v"
    using scv unfolding refit_frame_def by blast+
  then obtain v2 where v2: "vehicles (snd (CmdRefitVehicle e i c sc)) i = Some v2"
     "vehstatus v2 = vehstatus v" "owner v2 = owner v" "current_order v2 = current_order v"
     "round_trip_time v2 = round_trip_time v"
     "depot_unbunching_last_departure v2 = depot_unbunching_last_departure v" by blast
  have s2f: "vehicles s2 i = Some v2" "vehicles_to_autoreplace s2 = vehicles_to_autoreplace s"
     "local_company s2 = local_company s" "TimerGameTick_counter s2 = TimerGameTick_counter s"
     "log s2 = log s @ [EvRefit i (owner v)]"
  proof -
    have scf: "vehicles_to_autoreplace sc = vehicles_to_autoreplace s" "local_company sc = local_company s"
      "TimerGameTick_counter sc = TimerGameTick_counter s" "log sc = log s"
      by (simp_all add: sc_def)
    show "vehicles s2 i = Some v2" by (simp add: s2_def s1_def emit_def v2)
    show "vehicles_to_autoreplace s2 = vehicles_to_autoreplace s" by (simp add: s2_def s1_def emit_def frc scf)
    show "local_company s2 = local_company s" by (simp add: s2_def s1_def emit_def frc scf)
    show "TimerGameTick_counter s2 = TimerGameTick_counter s" by (simp add: s2_def s1_def emit_def frc scf)
    show "log s2 = log s @ [EvRefit i (owner v)]" by (simp add: s2_def s1_def emit_def scf)
  qed
  have cl: "call (CmdRefitVehicle e i c) sc = (cost, s1)"
    by (simp add: call_def cost_def s1_def)
  have rf: "refit_fails e i s = (\<not> Succeeded cost)"
    using v Some by (simp add: refit_fails_def cost_def sc_def)
  have unf: "depot_refit e i s =
      (if \<not> Succeeded cost then
         (let s3 = s2\<lparr>vehicles_to_autoreplace := (vehicles_to_autoreplace s2)(i \<mapsto> False)\<rparr>
          in if owner v2 = local_company s3
             then Inr (emit [EvAdviceNews RefitFailed STR_NEWS_ORDER_REFIT_FAILED None i] s3)
             else Inr s3)
       else if GetCost cost \<noteq> 0 then
         (let s3 = put_vehicle i (v2\<lparr>profit_this_year := profit_this_year v2 - GetCost cost * 256\<rparr>) s2
          in if owner v2 = local_company s3
             then Inr (emit [EvCostAnimation (GetCost cost)] s3)
             else Inr s3)
       else Inr s2)"
    using v Some cl s2f(1) by (simp add: depot_refit_def sc_def[symmetric] Let_def s2_def[symmetric])
  show ?thesis
  proof (cases "Succeeded cost")
    case False
    then show ?thesis using rf v2 s2f
      by (auto simp: unf Let_def emit_def)
  next
    case True
    then show ?thesis using rf v2 s2f
      by (auto simp: unf Let_def emit_def put_vehicle_def)
  qed
qed

lemma depot_halt_result:
  assumes v: "vehicles s i = Some v"
  shows "\<exists>s1 v1 L. depot_halt i s = Inr s1 \<and> vehicles s1 i = Some v1 \<and>
      vehstatus v1 = vehstatus v \<and> owner v1 = owner v \<and> current_order v1 = current_order v \<and>
      (ODATFB_HALT \<notin> depot_action_type (current_order v) \<longrightarrow>
         round_trip_time v1 = round_trip_time v \<and>
         depot_unbunching_last_departure v1 = depot_unbunching_last_departure v) \<and>
      vehicles_to_autoreplace s1 =
        (if ODATFB_HALT \<in> depot_action_type (current_order v)
         then (vehicles_to_autoreplace s)(i \<mapsto> False) else vehicles_to_autoreplace s) \<and>
      local_company s1 = local_company s \<and> TimerGameTick_counter s1 = TimerGameTick_counter s \<and>
      log s1 = log s @ L"
proof (cases "ODATFB_HALT \<in> depot_action_type (current_order v)")
  case False
  then have "depot_halt i s = Inr s" using v by (simp add: depot_halt_def)
  then show ?thesis using v False by auto
next
  case True
  then show ?thesis using v
    by (auto simp: depot_halt_def Let_def emit_def put_vehicle_def ResetDepotUnbunching_def)
qed

lemma record_round_trip_frame:
  assumes "record_round_trip counter v = Inr v'"
  shows "vehstatus v' = vehstatus v" "owner v' = owner v" "current_order v' = current_order v"
  using assms
  by (auto simp: record_round_trip_def Let_def split: if_splits sum.splits)

lemma depot_order_reached_result:
  assumes v: "vehicles s i = Some v" and fr: "refit_frame e"
    and nh: "\<not> heading_for_another_depot e i v"
  shows "\<exists>s3 v3 L. vehicles s3 i = Some v3 \<and> vehstatus v3 = vehstatus v \<and> owner v3 = owner v \<and>
      current_order v3 = current_order v \<and>
      (ODATFB_HALT \<notin> depot_action_type (current_order v) \<longrightarrow>
         round_trip_time v3 = round_trip_time v \<and>
         depot_unbunching_last_departure v3 = depot_unbunching_last_departure v) \<and>
      vehicles_to_autoreplace s3 =
        (if refit_fails e i s \<or> ODATFB_HALT \<in> depot_action_type (current_order v)
         then (vehicles_to_autoreplace s)(i \<mapsto> False) else vehicles_to_autoreplace s) \<and>
      TimerGameTick_counter s3 = TimerGameTick_counter s \<and>
      log s3 = log s @ L \<and>
      (refit_fails e i s \<and> owner v = local_company s \<longrightarrow>
         EvAdviceNews RefitFailed STR_NEWS_ORDER_REFIT_FAILED None i \<in> set L) \<and>
      depot_order_reached e i s =
        (case record_round_trip (TimerGameTick_counter s) v3 of
           Inl err \<Rightarrow> Inl err
         | Inr v4 \<Rightarrow> Inr (put_vehicle i (v4\<lparr>current_order := MakeDummy (current_order v4)\<rparr>) s3))"
proof -
  from depot_refit_result[OF v fr] obtain s1 v1 L1 where
    r1: "depot_refit e i s = Inr s1" "vehicles s1 i = Some v1"
     and f1: "vehstatus v1 = vehstatus v" "owner v1 = owner v" "current_order v1 = current_order v"
      "round_trip_time v1 = round_trip_time v"
      "depot_unbunching_last_departure v1 = depot_unbunching_last_departure v"
     and m1: "vehicles_to_autoreplace s1 =
        (if refit_fails e i s then (vehicles_to_autoreplace s)(i \<mapsto> False) else vehicles_to_autoreplace s)"
     and g1: "local_company s1 = local_company s" "TimerGameTick_counter s1 = TimerGameTick_counter s"
      "log s1 = log s @ L1"
     and n1: "refit_fails e i s \<and> owner v = local_company s \<longrightarrow>
         EvAdviceNews RefitFailed STR_NEWS_ORDER_REFIT_FAILED None i \<in> set L1"
    by blast
  define s2 where "s2 = (if ODTFB_PART_OF_ORDERS \<in> depot_order_type (current_order v1)
                                 then emit [EvOrdersAdvanced i] s1 else s1)"
  define L2 where "L2 = (if ODTFB_PART_OF_ORDERS \<in> depot_order_type (current_order v1)
                                 then [EvOrdersAdvanced i] else [])"
  have s2f: "vehicles s2 i = Some v1" "vehicles_to_autoreplace s2 = vehicles_to_autoreplace s1"
     "local_company s2 = local_company s1" "TimerGameTick_counter s2 = TimerGameTick_counter s1"
     "log s2 = log s1 @ L2"
    using r1(2) by (simp_all add: s2_def L2_def emit_def)
  from depot_halt_result[OF s2f(1)] obtain s3 v3 L3 where
    r3: "depot_halt i s2 = Inr s3" "vehicles s3 i = Some v3"
     and f3: "vehstatus v3 = vehstatus v1" "owner v3 = owner v1" "current_order v3 = current_order v1"
     and u3: "ODATFB_HALT \<notin> depot_action_type (current_order v1) \<longrightarrow>
         round_trip_time v3 = round_trip_time v1 \<and>
         depot_unbunching_last_departure v3 = depot_unbunching_last_departure v1"
     and m3: "vehicles_to_autoreplace s3 =
        (if ODATFB_HALT \<in> depot_action_type (current_order v1)
         then (vehicles_to_autoreplace s2)(i \<mapsto> False) else vehicles_to_autoreplace s2)"
     and g3: "local_company s3 = local_company s2" "TimerGameTick_counter s3 = TimerGameTick_counter s2"
      "log s3 = log s2 @ L3"
    by blast
  have unf: "depot_order_reached e i s =
        (case record_round_trip (TimerGameTick_counter s3) v3 of
           Inl err \<Rightarrow> Inl err
         | Inr v4 \<Rightarrow> Inr (put_vehicle i (v4\<lparr>current_order := MakeDummy (current_order v4)\<rparr>) s3))"
    using v nh r1 r3 by (simp add: depot_order_reached_def Let_def s2_def[symmetric])
  have "vehicles_to_autoreplace s3 =
        (if refit_fails e i s \<or> ODATFB_HALT \<in> depot_action_type (current_order v)
         then (vehicles_to_autoreplace s)(i \<mapsto> False) else vehicles_to_autoreplace s)"
    by (simp add: m3 s2f m1 f1)
  moreover have "log s3 = log s @ (L1 @ L2 @ L3)" by (simp add: g3 s2f g1)
  moreover have "refit_fails e i s \<and> owner v = local_company s \<longrightarrow>
         EvAdviceNews RefitFailed STR_NEWS_ORDER_REFIT_FAILED None i \<in> set (L1 @ L2 @ L3)"
    using n1 by simp
  moreover have "TimerGameTick_counter s3 = TimerGameTick_counter s" by (simp add: g3 s2f g1)
  moreover have "vehstatus v3 = vehstatus v" "owner v3 = owner v" "current_order v3 = current_order v"
    by (simp_all add: f3 f1)
  moreover have "ODATFB_HALT \<notin> depot_action_type (current_order v) \<longrightarrow>
         round_trip_time v3 = round_trip_time v \<and>
         depot_unbunching_last_departure v3 = depot_unbunching_last_departure v"
    using u3 by (simp add: f1)
  ultimately show ?thesis using r3(2) unf by (metis (no_types, lifting))
qed



lemma heading_for_another_depot_cong:
  assumes "current_order v2 = current_order v" "type v2 = type v" "tile v2 = tile v" "dest_tile v2 = dest_tile v"
  shows "heading_for_another_depot e i v2 = heading_for_another_depot e i v"
  using assms by (simp add: heading_for_another_depot_def)


lemma refit_frame_idle: "refit_frame idle_env"
  by (simp add: refit_frame_def idle_env_def)

lemma unbunching_world_facts:
  "vehicles (unbunching_world rtt counter) 0 = Some (unbunching_vehicle rtt)"
  "TimerGameTick_counter (unbunching_world rtt counter) = counter"
  "consist (vehicles (unbunching_world rtt counter)) (Some 0) [0]"
  "first (unbunching_vehicle rtt) = Some 0"
  "type (unbunching_vehicle rtt) = VEH_ROAD"
  "current_order (unbunching_vehicle rtt) =
     \<lparr>order_type = OT_GOTO_DEPOT, depot_order_type = {ODTFB_PART_OF_ORDERS},
      depot_action_type = {ODATFB_UNBUNCH}, load_type = {}, refit_cargo = None, destination = 0\<rparr>"
  "depot_unbunching_last_departure (unbunching_vehicle rtt) = 50"
  "round_trip_time (unbunching_vehicle rtt) = rtt"
  "\<not> heading_for_another_depot idle_env 0 (unbunching_vehicle rtt)"
  "nextv (unbunching_vehicle rtt) = None"
  by (simp_all add: unbunching_world_def unbunching_vehicle_def empty_world_def Vehicle_new_def
      heading_for_another_depot_def idle_env_def)



subsection \<open>Stopping and restarting a vehicle that entered a depot\<close>

lemma VehicleEnterDepot_flags:
  assumes "vehicles s i = Some v" and "first v = Some i"
    and "type v \<noteq> VEH_EFFECT" and "type v \<noteq> VEH_DISASTER"
    and "consist (vehicles s) (Some i) vs"
    and "refit_frame e"
  shows "\<exists>s2 v2 r. depot_arrival e i s = Some (Inr s2) \<and> vehicles s2 i = Some v2 \<and>
           Stopped \<in> vehstatus v2 \<and> owner v2 = owner v \<and> local_company s2 = local_company s \<and>
           log s2 = log s \<and>
           vehicles_to_autoreplace s2 i = Some (Stopped \<notin> vehstatus v) \<and>
           VehicleEnterDepot e i s = Some r \<and>
           (\<forall>s'. r = Inr s' \<longrightarrow>
              (\<exists>v' L. vehicles s' i = Some v' \<and> Stopped \<in> vehstatus v' \<and>
                 vehicles_to_autoreplace s' i = Some (Stopped \<notin> vehstatus v \<and> \<not> restart_cancelled e i s2) \<and>
                 log s' = log s @ L \<and>
                 (order_type (current_order v2) = OT_GOTO_DEPOT \<and>
                  \<not> heading_for_another_depot e i v2 \<and> refit_fails e i s2 \<and>
                  owner v = local_company s \<longrightarrow>
                    EvAdviceNews RefitFailed STR_NEWS_ORDER_REFIT_FAILED None i \<in> set L)))"
proof -
  from depot_arrival_result[OF assms(1-5), of e] obtain s2 v2 where
    a: "depot_arrival e i s = Some (Inr s2)" "vehicles s2 i = Some v2"
    and st: "vehstatus v2 = insert Stopped (insert Hidden (vehstatus v))"
    and ow: "owner v2 = owner v"
    and m: "vehicles_to_autoreplace s2 = (vehicles_to_autoreplace s)(i \<mapsto> Stopped \<notin> vehstatus v)"
    and g: "local_company s2 = local_company s" "log s2 = log s"
    by blast
  have S2: "Stopped \<in> vehstatus v2" by (simp add: st)
  have M2: "vehicles_to_autoreplace s2 i = Some (Stopped \<notin> vehstatus v)" by (simp add: m)
  show ?thesis
  proof (cases "order_type (current_order v2) = OT_GOTO_DEPOT")
    case False
    then have r: "VehicleEnterDepot e i s = Some (Inr s2)"
      using a by (simp add: VehicleEnterDepot_def)
    have "\<not> restart_cancelled e i s2" using a(2) False by (simp add: restart_cancelled_def)
    then show ?thesis using a S2 M2 ow g r False by auto
  next
    case ord: True
    show ?thesis
    proof (cases "heading_for_another_depot e i v2")
      case True
      then have r: "VehicleEnterDepot e i s = Some (Inr s2)"
        using a ord by (simp add: VehicleEnterDepot_def depot_order_reached_def)
      have "\<not> restart_cancelled e i s2" using a(2) True by (simp add: restart_cancelled_def)
      then show ?thesis using a S2 M2 ow g r True by auto
    next
      case nh: False
      from depot_order_reached_result[OF a(2) assms(6) nh] obtain s3 v3 L where
        v3: "vehicles s3 i = Some v3" "vehstatus v3 = vehstatus v2"
        and m3: "vehicles_to_autoreplace s3 =
          (if refit_fails e i s2 \<or> ODATFB_HALT \<in> depot_action_type (current_order v2)
           then (vehicles_to_autoreplace s2)(i \<mapsto> False) else vehicles_to_autoreplace s2)"
        and l3: "log s3 = log s2 @ L"
          "refit_fails e i s2 \<and> owner v2 = local_company s2 \<longrightarrow>
             EvAdviceNews RefitFailed STR_NEWS_ORDER_REFIT_FAILED None i \<in> set L"
        and r: "depot_order_reached e i s2 =
          (case record_round_trip (TimerGameTick_counter s2) v3 of
             Inl err \<Rightarrow> Inl err
           | Inr v4 \<Rightarrow> Inr (put_vehicle i (v4\<lparr>current_order := MakeDummy (current_order v4)\<rparr>) s3))"
        by blast
      have rc: "restart_cancelled e i s2 =
          (refit_fails e i s2 \<or> ODATFB_HALT \<in> depot_action_type (current_order v2))"
        using a(2) ord nh by (simp add: restart_cancelled_def)
      have ved: "VehicleEnterDepot e i s = Some (depot_order_reached e i s2)"
        using a ord by (simp add: VehicleEnterDepot_def)
      have fin: "\<exists>v' L. vehicles s' i = Some v' \<and> Stopped \<in> vehstatus v' \<and>
                 vehicles_to_autoreplace s' i = Some (Stopped \<notin> vehstatus v \<and> \<not> restart_cancelled e i s2) \<and>
                 log s' = log s @ L \<and>
                 (order_type (current_order v2) = OT_GOTO_DEPOT \<and>
                  \<not> heading_for_another_depot e i v2 \<and> refit_fails e i s2 \<and>
                  owner v = local_company s \<longrightarrow>
                    EvAdviceNews RefitFailed STR_NEWS_ORDER_REFIT_FAILED None i \<in> set L)"
        if "depot_order_reached e i s2 = Inr s'" for s'
      proof -
        from that r obtain v4 where v4: "record_round_trip (TimerGameTick_counter s2) v3 = Inr v4"
          and s': "s' = put_vehicle i (v4\<lparr>current_order := MakeDummy (current_order v4)\<rparr>) s3"
          by (auto split: sum.splits)
        have "vehstatus v4 = vehstatus v3" using record_round_trip_frame(1)[OF v4] .
        then have "Stopped \<in> vehstatus (v4\<lparr>current_order := MakeDummy (current_order v4)\<rparr>)"
          using v3(2) S2 by simp
        moreover have "vehicles s' i = Some (v4\<lparr>current_order := MakeDummy (current_order v4)\<rparr>)"
          by (simp add: s' put_vehicle_def)
        moreover have "vehicles_to_autoreplace s' i = Some (Stopped \<notin> vehstatus v \<and> \<not> restart_cancelled e i s2)"
          by (simp add: s' put_vehicle_def m3 rc M2)
        moreover have "log s' = log s @ L" by (simp add: s' put_vehicle_def l3 g)
        ultimately show ?thesis using l3(2) ow g by auto
      qed
      show ?thesis using a S2 M2 ow g ved fin by blast
    qed
  qed
qed

lemma autoreplace_report_frame:
  "vehicles (autoreplace_report i res s) = vehicles s"
  "vehicles_to_autoreplace (autoreplace_report i res s) = vehicles_to_autoreplace s"
  "current_company (autoreplace_report i res s) = current_company s"
  "local_company (autoreplace_report i res s) = local_company s"
  by (simp_all add: autoreplace_report_def emit_def Let_def)

lemma autoreplace_prepare_frame:
  "vehicles (autoreplace_prepare e i b v s) =
     (if b then (vehicles s)(i \<mapsto> v\<lparr>vehstatus := vehstatus v - {Stopped}\<rparr>) else vehicles s)"
  "vehicles_to_autoreplace (autoreplace_prepare e i b v s) = vehicles_to_autoreplace s"
  "current_company (autoreplace_prepare e i b v s) = owner v"
  "local_company (autoreplace_prepare e i b v s) = local_company s"
  "log (autoreplace_prepare e i b v s) = log s @ [EvSubtractMoney (owner v) (engine_renew_money e (owner v))]"
  by (simp_all add: autoreplace_prepare_def emit_def put_vehicle_def Let_def)

lemma autoreplace_entry_status:
  assumes "vehicles s i = Some v" and "autoreplace_frame e"
  shows "\<exists>s'. autoreplace_entry e i b s = Inr s' \<and>
           vehicles_to_autoreplace s' = vehicles_to_autoreplace s \<and>
           (\<forall>j. status_of s' j =
                (if j = i \<and> b then Some (vehstatus v - {Stopped}) else status_of s j))"
proof -
  define s1 where "s1 = autoreplace_prepare e i b v s"
  define s2 where "s2 = snd (CmdAutoreplaceVehicle e i s1)"
  have m: "vehicles_to_autoreplace s2 = vehicles_to_autoreplace s"
    using assms(2) by (simp add: s2_def s1_def autoreplace_frame_def autoreplace_prepare_frame)
  have st: "map_option vehstatus (vehicles s2 j) = map_option vehstatus (vehicles s1 j)" for j
    using assms(2) by (simp add: s2_def autoreplace_frame_def)
  have st1: "map_option vehstatus (vehicles s1 j) =
      (if j = i \<and> b then Some (vehstatus v - {Stopped}) else map_option vehstatus (vehicles s j))" for j
    using assms(1) by (simp add: s1_def autoreplace_prepare_frame)
  obtain s' where r: "autoreplace_entry e i b s = Inr s'"
    and v': "vehicles s' = vehicles s2" "vehicles_to_autoreplace s' = vehicles_to_autoreplace s2"
    using assms(1)
    by (simp add: autoreplace_entry_def Let_def call_def split_def autoreplace_report_frame
        emit_def s2_def s1_def)
  show ?thesis using r v' m st st1 by (simp add: status_of_def)
qed

lemma autoreplace_pass_status:
  assumes "autoreplace_frame e" and "distinct js"
    and "\<forall>j\<in>set js. vehicles_to_autoreplace s j \<noteq> None \<longrightarrow> vehicles s j \<noteq> None"
  shows "\<exists>s'. autoreplace_pass e js s = Inr s' \<and>
           vehicles_to_autoreplace s' = vehicles_to_autoreplace s \<and>
           (\<forall>j. status_of s' j =
                (if j \<in> set js \<and> vehicles_to_autoreplace s j = Some True
                 then map_option (\<lambda>x. x - {Stopped}) (status_of s j) else status_of s j))"
  using assms(2,3)
proof (induction js arbitrary: s)
  case Nil
  show ?case by simp
next
  case (Cons i js)
  have d: "distinct js" "i \<notin> set js" using Cons.prems(1) by simp_all
  show ?case
  proof (cases "vehicles_to_autoreplace s i")
    case None
    have "\<forall>j\<in>set js. vehicles_to_autoreplace s j \<noteq> None \<longrightarrow> vehicles s j \<noteq> None"
      using Cons.prems(2) by simp
    from Cons.IH[OF d(1) this] obtain s' where
      r: "autoreplace_pass e js s = Inr s'" "vehicles_to_autoreplace s' = vehicles_to_autoreplace s"
      and st: "\<forall>j. status_of s' j =
                (if j \<in> set js \<and> vehicles_to_autoreplace s j = Some True
                 then map_option (\<lambda>x. x - {Stopped}) (status_of s j) else status_of s j)"
      by blast
    have "autoreplace_pass e (i # js) s = Inr s'" using None r(1) by simp
    moreover have "\<forall>j. status_of s' j =
                (if j \<in> set (i # js) \<and> vehicles_to_autoreplace s j = Some True
                 then map_option (\<lambda>x. x - {Stopped}) (status_of s j) else status_of s j)"
      using st None by auto
    ultimately show ?thesis using r(2) by blast
  next
    case (Some b)
    then obtain v where v: "vehicles s i = Some v" using Cons.prems(2) by auto
    from autoreplace_entry_status[OF v assms(1), of b] obtain s1 where
      e1: "autoreplace_entry e i b s = Inr s1"
      and m1: "vehicles_to_autoreplace s1 = vehicles_to_autoreplace s"
      and st1: "\<forall>j. status_of s1 j =
                (if j = i \<and> b then Some (vehstatus v - {Stopped}) else status_of s j)"
      by blast
    have dom: "(vehicles s1 j = None) = (vehicles s j = None)" for j
      using st1[rule_format, of j] v by (auto simp add: status_of_def split: if_splits)
    have "\<forall>j\<in>set js. vehicles_to_autoreplace s1 j \<noteq> None \<longrightarrow> vehicles s1 j \<noteq> None"
      using Cons.prems(2) by (simp add: m1 dom)
    from Cons.IH[OF d(1) this] obtain s' where
      r: "autoreplace_pass e js s1 = Inr s'" "vehicles_to_autoreplace s' = vehicles_to_autoreplace s1"
      and st: "\<forall>j. status_of s' j =
                (if j \<in> set js \<and> vehicles_to_autoreplace s1 j = Some True
                 then map_option (\<lambda>x. x - {Stopped}) (status_of s1 j) else status_of s1 j)"
      by blast
    have "autoreplace_pass e (i # js) s = Inr s'" using Some e1 r(1) by simp
    moreover have "status_of s' j =
                (if j \<in> set (i # js) \<and> vehicles_to_autoreplace s j = Some True
                 then map_option (\<lambda>x. x - {Stopped}) (status_of s j) else status_of s j)" for j
    proof (cases "j = i")
      case True
      then have "status_of s' j = status_of s1 i" using st d(2) by simp
      also have "\<dots> = (if b then Some (vehstatus v - {Stopped}) else status_of s i)"
        using st1 by simp
      finally show ?thesis using True Some v by (simp add: status_of_def)
    next
      case False
      then show ?thesis using st[rule_format, of j] st1[rule_format, of j] m1 by simp
    qed
    ultimately show ?thesis using r(2) m1 by auto
  qed
qed

lemma ticks_autoreplace_status:
  assumes "autoreplace_frame e"
    and "\<forall>j<MAX_SIZE e. vehicles_to_autoreplace s j \<noteq> None \<longrightarrow> vehicles s j \<noteq> None"
  shows "\<exists>s'. ticks_autoreplace e s = Inr s' \<and> current_company s' = current_company s \<and>
           (\<forall>j. status_of s' j =
                (if j < MAX_SIZE e \<and> vehicles_to_autoreplace s j = Some True
                 then map_option (\<lambda>x. x - {Stopped}) (status_of s j) else status_of s j))"
proof -
  have "\<forall>j\<in>set [0 ..< MAX_SIZE e]. vehicles_to_autoreplace s j \<noteq> None \<longrightarrow> vehicles s j \<noteq> None"
    using assms(2) by simp
  from autoreplace_pass_status[OF assms(1) distinct_upt this] obtain s1 where
    r: "autoreplace_pass e [0 ..< MAX_SIZE e] s = Inr s1"
    and st: "\<forall>j. status_of s1 j =
                (if j \<in> set [0 ..< MAX_SIZE e] \<and> vehicles_to_autoreplace s j = Some True
                 then map_option (\<lambda>x. x - {Stopped}) (status_of s j) else status_of s j)"
    by blast
  have "ticks_autoreplace e s = Inr (s1\<lparr>current_company := current_company s\<rparr>)"
    using r by (simp add: ticks_autoreplace_def)
  moreover have "status_of (s1\<lparr>current_company := current_company s\<rparr>) j = status_of s1 j" for j
    by (simp add: status_of_def)
  ultimately show ?thesis using st by simp
qed

lemma autoreplace_frame_idle: "autoreplace_frame idle_env"
  by (simp add: autoreplace_frame_def idle_env_def)

lemma unbunching_world_enters:
  "\<exists>s'. VehicleEnterDepot idle_env 0 (unbunching_world 0 150) = Some (Inr s') \<and>
     (\<forall>j. vehicles_to_autoreplace s' j \<noteq> None \<longrightarrow> vehicles s' j \<noteq> None) \<and>
     (\<exists>w. vehicles s' 0 = Some w)"
  by (simp add: VehicleEnterDepot_def depot_arrival_def VehicleServiceInDepot.simps put_vehicle_def
      service_vehicle_def VehicleEnteredDepotThisTick_def depot_order_reached_def
      depot_refit_def depot_halt_def record_round_trip_def emit_def
      heading_for_another_depot_def idle_env_def empty_world_def Vehicle_new_def
      unbunching_world_def unbunching_vehicle_def measured_round_trip_def Let_def)

lemma unbunching_world_arrives:
  "\<exists>s2. depot_arrival idle_env 0 (unbunching_world 0 150) = Some (Inr s2) \<and>
     \<not> restart_cancelled idle_env 0 s2"
  by (simp add: depot_arrival_def VehicleServiceInDepot.simps put_vehicle_def
      service_vehicle_def VehicleEnteredDepotThisTick_def restart_cancelled_def refit_fails_def
      heading_for_another_depot_def idle_env_def empty_world_def Vehicle_new_def
      unbunching_world_def unbunching_vehicle_def Let_def)

text \<open>
  Claim C10. Let the front vehicle of a well-formed chain enter a depot, with a refit
  command that keeps the autoreplace map and the status flags of the vehicle. After
  \<^verbatim>\<open>VehicleEnteredDepotThisTick\<close> the vehicle is \<^verbatim>\<open>Stopped\<close> and its entry in the autoreplace
  map tells whether it was not \<^verbatim>\<open>Stopped\<close> before. \<^verbatim>\<open>VehicleEnterDepot\<close> returns; when it
  completes, the vehicle is still \<^verbatim>\<open>Stopped\<close> and the entry is true exactly when the vehicle
  was not \<^verbatim>\<open>Stopped\<close> before and the restart was not cancelled by a failed refit or a halt
  order. At the end of the tick, the loop body for the entry of a vehicle with the
  recorded value \<open>b\<close> calls the autoreplace command in a pool where \<^verbatim>\<open>Stopped\<close> has been
  removed from this vehicle exactly when \<open>b\<close> is true, the flags of all other vehicles
  being as before, and the pool after the loop body is the pool the command returned.
  With an autoreplace command that replaces nothing, the whole pass returns and has
  removed \<^verbatim>\<open>Stopped\<close> from exactly the vehicles whose recorded value is true.
\<close>

theorem VehicleEnterDepot_stopped:
  assumes "vehicles s i = Some v" and "first v = Some i"
    and "type v \<noteq> VEH_EFFECT" and "type v \<noteq> VEH_DISASTER"
    and "consist (vehicles s) (Some i) vs"
    and "refit_frame e"
    and "vehicles t i = Some w"
  shows "(\<exists>s2 r. depot_arrival e i s = Some (Inr s2) \<and>
            (\<exists>st. status_of s2 i = Some st \<and> Stopped \<in> st) \<and>
            vehicles_to_autoreplace s2 i = Some (Stopped \<notin> vehstatus v) \<and>
            VehicleEnterDepot e i s = Some r \<and>
            (\<forall>s'. r = Inr s' \<longrightarrow>
               (\<exists>st. status_of s' i = Some st \<and> Stopped \<in> st) \<and>
               vehicles_to_autoreplace s' i =
                 Some (Stopped \<notin> vehstatus v \<and> \<not> restart_cancelled e i s2))) \<and>
         (\<forall>b. (\<forall>j. status_of (autoreplace_prepare e i b w t) j =
                  (if j = i \<and> b then Some (vehstatus w - {Stopped}) else status_of t j)) \<and>
              (\<exists>t'. autoreplace_entry e i b t = Inr t' \<and>
                 vehicles t' = vehicles (snd (CmdAutoreplaceVehicle e i (autoreplace_prepare e i b w t))))) \<and>
         (autoreplace_frame e \<and>
          (\<forall>j<MAX_SIZE e. vehicles_to_autoreplace t j \<noteq> None \<longrightarrow> vehicles t j \<noteq> None) \<longrightarrow>
            (\<exists>t'. ticks_autoreplace e t = Inr t' \<and>
               (\<forall>j. status_of t' j =
                  (if j < MAX_SIZE e \<and> vehicles_to_autoreplace t j = Some True
                   then map_option (\<lambda>x. x - {Stopped}) (status_of t j) else status_of t j))))"
proof -
  from VehicleEnterDepot_flags[OF assms(1-6)] obtain s2 v2 r where
    a: "depot_arrival e i s = Some (Inr s2)" "vehicles s2 i = Some v2" "Stopped \<in> vehstatus v2"
      "vehicles_to_autoreplace s2 i = Some (Stopped \<notin> vehstatus v)"
      "VehicleEnterDepot e i s = Some r"
    and f: "\<forall>s'. r = Inr s' \<longrightarrow>
              (\<exists>v' L. vehicles s' i = Some v' \<and> Stopped \<in> vehstatus v' \<and>
                 vehicles_to_autoreplace s' i = Some (Stopped \<notin> vehstatus v \<and> \<not> restart_cancelled e i s2) \<and>
                 log s' = log s @ L \<and>
                 (order_type (current_order v2) = OT_GOTO_DEPOT \<and>
                  \<not> heading_for_another_depot e i v2 \<and> refit_fails e i s2 \<and>
                  owner v = local_company s \<longrightarrow>
                    EvAdviceNews RefitFailed STR_NEWS_ORDER_REFIT_FAILED None i \<in> set L))"
    by blast
  have A1: "\<exists>st. status_of s2 i = Some st \<and> Stopped \<in> st"
    using a(2,3) by (simp add: status_of_def)
  have A2: "(\<exists>st. status_of s' i = Some st \<and> Stopped \<in> st) \<and>
               vehicles_to_autoreplace s' i =
                 Some (Stopped \<notin> vehstatus v \<and> \<not> restart_cancelled e i s2)" if "r = Inr s'" for s'
  proof -
    from f that obtain v' where "vehicles s' i = Some v'" "Stopped \<in> vehstatus v'"
      "vehicles_to_autoreplace s' i = Some (Stopped \<notin> vehstatus v \<and> \<not> restart_cancelled e i s2)"
      by blast
    then show ?thesis by (simp add: status_of_def)
  qed
  have A: "\<exists>s2 r. depot_arrival e i s = Some (Inr s2) \<and>
            (\<exists>st. status_of s2 i = Some st \<and> Stopped \<in> st) \<and>
            vehicles_to_autoreplace s2 i = Some (Stopped \<notin> vehstatus v) \<and>
            VehicleEnterDepot e i s = Some r \<and>
            (\<forall>s'. r = Inr s' \<longrightarrow>
               (\<exists>st. status_of s' i = Some st \<and> Stopped \<in> st) \<and>
               vehicles_to_autoreplace s' i =
                 Some (Stopped \<notin> vehstatus v \<and> \<not> restart_cancelled e i s2))"
    using a(1,4,5) A1 A2 by blast
  have B1: "status_of (autoreplace_prepare e i b w t) j =
                  (if j = i \<and> b then Some (vehstatus w - {Stopped}) else status_of t j)" for b j
    using assms(7) by (simp add: status_of_def autoreplace_prepare_frame)
  have B2: "\<exists>t'. autoreplace_entry e i b t = Inr t' \<and>
                 vehicles t' = vehicles (snd (CmdAutoreplaceVehicle e i (autoreplace_prepare e i b w t)))" for b
    using assms(7)
    by (simp add: autoreplace_entry_def Let_def call_def split_def autoreplace_report_frame emit_def)
  have C: "\<exists>t'. ticks_autoreplace e t = Inr t' \<and>
               (\<forall>j. status_of t' j =
                  (if j < MAX_SIZE e \<and> vehicles_to_autoreplace t j = Some True
                   then map_option (\<lambda>x. x - {Stopped}) (status_of t j) else status_of t j))"
    if "autoreplace_frame e"
      "\<forall>j<MAX_SIZE e. vehicles_to_autoreplace t j \<noteq> None \<longrightarrow> vehicles t j \<noteq> None"
    using ticks_autoreplace_status[OF that] by blast
  show ?thesis using A B1 B2 C by blast
qed

text \<open>
  The road vehicle of the fixture drives into the depot of its order: it is stopped there
  with the recorded value true, and the autoreplace pass at the end of the tick starts it
  again.
\<close>

theorem VehicleEnterDepot_stopped_witness:
  "\<exists>s' t'. VehicleEnterDepot idle_env 0 (unbunching_world 0 150) = Some (Inr s') \<and>
     (\<exists>st. status_of s' 0 = Some st \<and> Stopped \<in> st) \<and>
     vehicles_to_autoreplace s' 0 = Some True \<and>
     ticks_autoreplace idle_env s' = Inr t' \<and>
     (\<exists>st. status_of t' 0 = Some st \<and> Stopped \<notin> st)"
proof -
  from unbunching_world_enters obtain s' w where
    e: "VehicleEnterDepot idle_env 0 (unbunching_world 0 150) = Some (Inr s')"
    and d: "\<forall>j. vehicles_to_autoreplace s' j \<noteq> None \<longrightarrow> vehicles s' j \<noteq> None"
    and w: "vehicles s' 0 = Some w"
    by blast
  from unbunching_world_arrives obtain a where
    a: "depot_arrival idle_env 0 (unbunching_world 0 150) = Some (Inr a)"
    and nr: "\<not> restart_cancelled idle_env 0 a"
    by blast
  have st0: "Stopped \<notin> vehstatus (unbunching_vehicle 0)"
    by (simp add: unbunching_vehicle_def Vehicle_new_def)
  have T: "(\<exists>st. status_of s' 0 = Some st \<and> Stopped \<in> st) \<and>
      vehicles_to_autoreplace s' 0 = Some True \<and>
      (\<exists>t'. ticks_autoreplace idle_env s' = Inr t' \<and>
         (\<forall>j. status_of t' j =
            (if j < MAX_SIZE idle_env \<and> vehicles_to_autoreplace s' j = Some True
             then map_option (\<lambda>x. x - {Stopped}) (status_of s' j) else status_of s' j)))"
    using VehicleEnterDepot_stopped[of "unbunching_world 0 150" 0 "unbunching_vehicle 0" "[0]" idle_env s' w]
      e d w a nr st0
    by (simp add: unbunching_world_facts refit_frame_idle autoreplace_frame_idle)
  then obtain t' st where t: "ticks_autoreplace idle_env s' = Inr t'"
    "\<forall>j. status_of t' j =
            (if j < MAX_SIZE idle_env \<and> vehicles_to_autoreplace s' j = Some True
             then map_option (\<lambda>x. x - {Stopped}) (status_of s' j) else status_of s' j)"
    and st: "status_of s' 0 = Some st" "Stopped \<in> st" and m: "vehicles_to_autoreplace s' 0 = Some True"
    by blast
  have "status_of t' 0 = Some (st - {Stopped})"
    using t(2)[rule_format, of 0] st m by (simp add: idle_env_def)
  then show ?thesis using e st m t(1) by auto
qed

subsection \<open>Failed refits and failed autoreplace commands\<close>

lemma advice_of_append: "advice_of (xs @ ys) = advice_of xs @ advice_of ys"
  by (induction xs rule: advice_of.induct) simp_all

lemma autoreplaces_of_append: "autoreplaces_of (xs @ ys) = autoreplaces_of xs @ autoreplaces_of ys"
  by (induction xs rule: autoreplaces_of.induct) simp_all

lemma ticks_of_append: "ticks_of (xs @ ys) = ticks_of xs @ ticks_of ys"
  by (induction xs rule: ticks_of.induct) simp_all

lemma autoreplace_report_log:
  "\<exists>R. log (autoreplace_report i res s) = log s @ R \<and> ticks_of R = [] \<and> autoreplaces_of R = [] \<and>
     advice_of R =
       (if current_company s \<noteq> local_company s \<or> Succeeded res then []
        else if GetErrorMessage res = STR_ERROR_AUTOREPLACE_NOTHING_TO_DO \<or>
                GetErrorMessage res = INVALID_STRING_ID then []
        else if GetErrorMessage res = STR_ERROR_NOT_ENOUGH_CASH_REQUIRES_CURRENCY
        then [(AutorenewFailed, STR_NEWS_VEHICLE_AUTORENEW_FAILED, Some STR_ERROR_AUTOREPLACE_MONEY_LIMIT, i)]
        else if GetErrorMessage res = STR_ERROR_TRAIN_TOO_LONG_AFTER_REPLACEMENT
        then [(AutorenewFailed, STR_ERROR_TRAIN_TOO_LONG_AFTER_REPLACEMENT, None, i)]
        else [(AutorenewFailed, STR_NEWS_VEHICLE_AUTORENEW_FAILED, Some (GetErrorMessage res), i)])"
  by (simp add: autoreplace_report_def emit_def Let_def)

lemma autoreplace_entry_log:
  assumes "vehicles t i = Some w"
    and "CmdAutoreplaceVehicle e i (autoreplace_prepare e i b w t) = (res, t2)"
  shows "\<exists>t' L. autoreplace_entry e i b t = Inr t' \<and> log t' = log t @ L \<and>
           ticks_of L = [] \<and> autoreplaces_of L = [(i, owner w, owner w)] \<and>
           advice_of L =
             (if current_company t2 \<noteq> local_company t2 \<or> Succeeded res then []
              else if GetErrorMessage res = STR_ERROR_AUTOREPLACE_NOTHING_TO_DO \<or>
                      GetErrorMessage res = INVALID_STRING_ID then []
              else if GetErrorMessage res = STR_ERROR_NOT_ENOUGH_CASH_REQUIRES_CURRENCY
              then [(AutorenewFailed, STR_NEWS_VEHICLE_AUTORENEW_FAILED, Some STR_ERROR_AUTOREPLACE_MONEY_LIMIT, i)]
              else if GetErrorMessage res = STR_ERROR_TRAIN_TOO_LONG_AFTER_REPLACEMENT
              then [(AutorenewFailed, STR_ERROR_TRAIN_TOO_LONG_AFTER_REPLACEMENT, None, i)]
              else [(AutorenewFailed, STR_NEWS_VEHICLE_AUTORENEW_FAILED, Some (GetErrorMessage res), i)])"
proof -
  define s1 where "s1 = autoreplace_prepare e i b w t"
  define s3 where "s3 = emit [EvAutoreplace i (current_company s1) (owner w),
       EvSubtractMoney (current_company (t2\<lparr>log := log s1\<rparr>)) (- engine_renew_money e (current_company s1))]
       (t2\<lparr>log := log s1\<rparr>)"
  have c: "call (CmdAutoreplaceVehicle e i) s1 = (res, t2\<lparr>log := log s1\<rparr>)"
    using assms(2) by (simp add: call_def s1_def)
  have r: "autoreplace_entry e i b t = Inr (autoreplace_report i res s3)"
    using assms(1) c by (simp add: autoreplace_entry_def Let_def s1_def[symmetric] s3_def)
  have l3: "log s3 = log t @ [EvSubtractMoney (owner w) (engine_renew_money e (owner w)),
      EvAutoreplace i (owner w) (owner w),
      EvSubtractMoney (current_company t2) (- engine_renew_money e (owner w))]"
    by (simp add: s3_def emit_def s1_def autoreplace_prepare_frame)
  have c3: "current_company s3 = current_company t2" "local_company s3 = local_company t2"
    by (simp_all add: s3_def emit_def)
  from autoreplace_report_log[of i res s3] obtain R where
    R: "log (autoreplace_report i res s3) = log s3 @ R" "ticks_of R = []" "autoreplaces_of R = []"
      "advice_of R =
       (if current_company s3 \<noteq> local_company s3 \<or> Succeeded res then []
        else if GetErrorMessage res = STR_ERROR_AUTOREPLACE_NOTHING_TO_DO \<or>
                GetErrorMessage res = INVALID_STRING_ID then []
        else if GetErrorMessage res = STR_ERROR_NOT_ENOUGH_CASH_REQUIRES_CURRENCY
        then [(AutorenewFailed, STR_NEWS_VEHICLE_AUTORENEW_FAILED, Some STR_ERROR_AUTOREPLACE_MONEY_LIMIT, i)]
        else if GetErrorMessage res = STR_ERROR_TRAIN_TOO_LONG_AFTER_REPLACEMENT
        then [(AutorenewFailed, STR_ERROR_TRAIN_TOO_LONG_AFTER_REPLACEMENT, None, i)]
        else [(AutorenewFailed, STR_NEWS_VEHICLE_AUTORENEW_FAILED, Some (GetErrorMessage res), i)])"
    by blast
  define L where "L = [EvSubtractMoney (owner w) (engine_renew_money e (owner w)),
      EvAutoreplace i (owner w) (owner w),
      EvSubtractMoney (current_company t2) (- engine_renew_money e (owner w))] @ R"
  have "log (autoreplace_report i res s3) = log t @ L" by (simp add: R(1) l3 L_def)
  moreover have "ticks_of L = []" by (simp add: L_def R(2))
  moreover have "autoreplaces_of L = [(i, owner w, owner w)]" by (simp add: L_def R(3))
  moreover have "advice_of L = advice_of R" by (simp add: L_def)
  ultimately show ?thesis using r R(4) unfolding c3 by metis
qed

lemma autoreplace_pass_log:
  assumes "autoreplace_frame e" and "distinct js"
    and "\<forall>j\<in>set js. vehicles_to_autoreplace s j \<noteq> None \<longrightarrow> vehicles s j \<noteq> None"
  shows "\<exists>s' L. autoreplace_pass e js s = Inr s' \<and> log s' = log s @ L \<and>
           map fst (autoreplaces_of L) = filter (\<lambda>j. j \<in> dom (vehicles_to_autoreplace s)) js"
  using assms(2,3)
proof (induction js arbitrary: s)
  case Nil
  show ?case by simp
next
  case (Cons i js)
  have d: "distinct js" "i \<notin> set js" using Cons.prems(1) by simp_all
  show ?case
  proof (cases "vehicles_to_autoreplace s i")
    case None
    have "\<forall>j\<in>set js. vehicles_to_autoreplace s j \<noteq> None \<longrightarrow> vehicles s j \<noteq> None"
      using Cons.prems(2) by simp
    from Cons.IH[OF d(1) this] obtain s' L where
      r: "autoreplace_pass e js s = Inr s'" "log s' = log s @ L"
        "map fst (autoreplaces_of L) = filter (\<lambda>j. j \<in> dom (vehicles_to_autoreplace s)) js"
      by blast
    have "autoreplace_pass e (i # js) s = Inr s'" using None r(1) by simp
    then show ?thesis using r(2,3) None by (simp add: domIff)
  next
    case (Some b)
    then obtain v where v: "vehicles s i = Some v" using Cons.prems(2) by auto
    from autoreplace_entry_status[OF v assms(1), of b] obtain s1 where
      e1: "autoreplace_entry e i b s = Inr s1"
      and m1: "vehicles_to_autoreplace s1 = vehicles_to_autoreplace s"
      and st1: "\<forall>j. status_of s1 j =
                (if j = i \<and> b then Some (vehstatus v - {Stopped}) else status_of s j)"
      by blast
    obtain res t2 where c: "CmdAutoreplaceVehicle e i (autoreplace_prepare e i b v s) = (res, t2)"
      by (cases "CmdAutoreplaceVehicle e i (autoreplace_prepare e i b v s)") blast
    from autoreplace_entry_log[OF v c] e1 obtain L1 where
      l1: "log s1 = log s @ L1" "autoreplaces_of L1 = [(i, owner v, owner v)]"
      by auto
    have dom: "(vehicles s1 j = None) = (vehicles s j = None)" for j
      using st1[rule_format, of j] v by (auto simp add: status_of_def split: if_splits)
    have "\<forall>j\<in>set js. vehicles_to_autoreplace s1 j \<noteq> None \<longrightarrow> vehicles s1 j \<noteq> None"
      using Cons.prems(2) by (simp add: m1 dom)
    from Cons.IH[OF d(1) this] obtain s' L where
      r: "autoreplace_pass e js s1 = Inr s'" "log s' = log s1 @ L"
        "map fst (autoreplaces_of L) = filter (\<lambda>j. j \<in> dom (vehicles_to_autoreplace s1)) js"
      by blast
    have "autoreplace_pass e (i # js) s = Inr s'" using Some e1 r(1) by simp
    moreover have "log s' = log s @ (L1 @ L)" by (simp add: r(2) l1(1))
    moreover have "map fst (autoreplaces_of (L1 @ L)) =
        filter (\<lambda>j. j \<in> dom (vehicles_to_autoreplace s)) (i # js)"
      using Some by (simp add: autoreplaces_of_append l1(2) r(3) m1 domIff)
    ultimately show ?thesis by blast
  qed
qed

lemma advice_of_mem:
  "EvAdviceNews a str par i \<in> set L \<Longrightarrow> (a, str, par, i) \<in> set (advice_of L)"
  by (induction L rule: advice_of.induct) auto

lemma upt_4: "[0..<4] = [0, 1, 2, 3::nat]"
  by (simp add: upt_rec)

lemma refit_frame_failing: "refit_frame (failing_env msg)"
  by (simp add: refit_frame_def failing_env_def idle_env_def)

lemma autoreplace_frame_failing: "autoreplace_frame (failing_env msg)"
  by (simp add: autoreplace_frame_def failing_env_def idle_env_def)

lemma refit_world_arrives:
  "\<exists>s2. depot_arrival (failing_env msg) 0 refit_world = Some (Inr s2) \<and>
     refit_fails (failing_env msg) 0 s2"
  by (simp add: depot_arrival_def VehicleServiceInDepot.simps put_vehicle_def
      service_vehicle_def VehicleEnteredDepotThisTick_def refit_fails_def
      failing_env_def idle_env_def empty_world_def Vehicle_new_def
      refit_world_def Let_def)

lemma refit_world_enters:
  "\<exists>s'. VehicleEnterDepot (failing_env msg) 0 refit_world = Some (Inr s') \<and> log s' \<noteq> []"
  by (simp add: VehicleEnterDepot_def depot_arrival_def VehicleServiceInDepot.simps put_vehicle_def
      service_vehicle_def VehicleEnteredDepotThisTick_def depot_order_reached_def
      depot_refit_def depot_halt_def record_round_trip_def emit_def call_def
      heading_for_another_depot_def failing_env_def idle_env_def empty_world_def Vehicle_new_def
      refit_world_def Let_def)

text \<open>
  Claim C9, as amended. Let the front vehicle of a well-formed chain enter a depot, with a
  refit command that keeps the autoreplace map, the local company, and the owner and
  the order of the vehicle. When
  \<^verbatim>\<open>VehicleEnterDepot\<close> completes after the refit of the depot order failed, the entry of
  the vehicle in the autoreplace map is false, and for a vehicle of the local company the
  advice \<^verbatim>\<open>STR_NEWS_ORDER_REFIT_FAILED\<close> was produced. At the end of the tick, let the
  autoreplace command of a queued vehicle fail. The loop body returns and the loop goes on
  with the remaining entries. What it reports depends on \<^verbatim>\<open>IsLocalCompany()\<close> after the
  command: for another company nothing is reported; for the local company "nothing to do"
  and the empty message are ignored, not enough cash is reported as the autoreplace money
  limit, and every other message is reported in an advice. With an autoreplace command
  that changes neither the map nor the flags of the vehicles, the pass returns and has
  called the command for every vehicle of the map, in the order of the pool indices.
\<close>

theorem autoreplace_failure_handling:
  assumes "vehicles s i = Some v" and "first v = Some i"
    and "type v \<noteq> VEH_EFFECT" and "type v \<noteq> VEH_DISASTER"
    and "consist (vehicles s) (Some i) vs"
    and "refit_frame e"
    and "vehicles t i = Some w" and "vehicles_to_autoreplace t i = Some b"
    and "CmdAutoreplaceVehicle e i (autoreplace_prepare e i b w t) = (res, t2)"
    and "\<not> Succeeded res"
  shows "(\<exists>s2 r. depot_arrival e i s = Some (Inr s2) \<and> VehicleEnterDepot e i s = Some r \<and>
            (\<forall>s'. r = Inr s' \<and> order_type (current_order v) = OT_GOTO_DEPOT \<and>
                  \<not> heading_for_another_depot e i v \<and> refit_fails e i s2 \<longrightarrow>
               vehicles_to_autoreplace s' i = Some False \<and>
               (\<exists>L. log s' = log s @ L \<and>
                  (owner v = local_company s \<longrightarrow>
                     (RefitFailed, STR_NEWS_ORDER_REFIT_FAILED, None, i) \<in> set (advice_of L))))) \<and>
         (\<exists>t' L. autoreplace_entry e i b t = Inr t' \<and>
            (\<forall>js. autoreplace_pass e (i # js) t = autoreplace_pass e js t') \<and>
            log t' = log t @ L \<and>
            advice_of L =
              (if current_company t2 \<noteq> local_company t2 then []
               else if GetErrorMessage res = STR_ERROR_AUTOREPLACE_NOTHING_TO_DO \<or>
                       GetErrorMessage res = INVALID_STRING_ID then []
               else if GetErrorMessage res = STR_ERROR_NOT_ENOUGH_CASH_REQUIRES_CURRENCY
               then [(AutorenewFailed, STR_NEWS_VEHICLE_AUTORENEW_FAILED,
                      Some STR_ERROR_AUTOREPLACE_MONEY_LIMIT, i)]
               else if GetErrorMessage res = STR_ERROR_TRAIN_TOO_LONG_AFTER_REPLACEMENT
               then [(AutorenewFailed, STR_ERROR_TRAIN_TOO_LONG_AFTER_REPLACEMENT, None, i)]
               else [(AutorenewFailed, STR_NEWS_VEHICLE_AUTORENEW_FAILED,
                      Some (GetErrorMessage res), i)])) \<and>
         (autoreplace_frame e \<and>
          (\<forall>j<MAX_SIZE e. vehicles_to_autoreplace t j \<noteq> None \<longrightarrow> vehicles t j \<noteq> None) \<longrightarrow>
            (\<exists>t' L. ticks_autoreplace e t = Inr t' \<and> log t' = log t @ L \<and>
               map fst (autoreplaces_of L) =
                 filter (\<lambda>j. j \<in> dom (vehicles_to_autoreplace t)) [0 ..< MAX_SIZE e]))"
proof -
  from depot_arrival_result[OF assms(1-5), of e] obtain s2 v2 where
    a: "depot_arrival e i s = Some (Inr s2)" "vehicles s2 i = Some v2"
    and f: "current_order v2 = current_order v" "type v2 = type v" "tile v2 = tile v"
      "dest_tile v2 = dest_tile v"
    by blast
  have hd: "heading_for_another_depot e i v2 = heading_for_another_depot e i v"
    using heading_for_another_depot_cong[OF f(1-4)] .
  from VehicleEnterDepot_flags[OF assms(1-6)] a obtain r where
    r: "VehicleEnterDepot e i s = Some r"
    and fl: "\<forall>s'. r = Inr s' \<longrightarrow>
              (\<exists>v' L. vehicles s' i = Some v' \<and> Stopped \<in> vehstatus v' \<and>
                 vehicles_to_autoreplace s' i = Some (Stopped \<notin> vehstatus v \<and> \<not> restart_cancelled e i s2) \<and>
                 log s' = log s @ L \<and>
                 (order_type (current_order v2) = OT_GOTO_DEPOT \<and>
                  \<not> heading_for_another_depot e i v2 \<and> refit_fails e i s2 \<and>
                  owner v = local_company s \<longrightarrow>
                    EvAdviceNews RefitFailed STR_NEWS_ORDER_REFIT_FAILED None i \<in> set L))"
    by auto
  have A1: "vehicles_to_autoreplace s' i = Some False \<and>
               (\<exists>L. log s' = log s @ L \<and>
                  (owner v = local_company s \<longrightarrow>
                     (RefitFailed, STR_NEWS_ORDER_REFIT_FAILED, None, i) \<in> set (advice_of L)))"
    if h: "r = Inr s'" "order_type (current_order v) = OT_GOTO_DEPOT"
      "\<not> heading_for_another_depot e i v" "refit_fails e i s2" for s'
  proof -
    have rc: "restart_cancelled e i s2"
      using a(2) h(2-4) f(1) hd by (simp add: restart_cancelled_def)
    from fl h(1) obtain L where
      m: "vehicles_to_autoreplace s' i = Some (Stopped \<notin> vehstatus v \<and> \<not> restart_cancelled e i s2)"
      and l: "log s' = log s @ L"
        "order_type (current_order v2) = OT_GOTO_DEPOT \<and>
                  \<not> heading_for_another_depot e i v2 \<and> refit_fails e i s2 \<and>
                  owner v = local_company s \<longrightarrow>
                    EvAdviceNews RefitFailed STR_NEWS_ORDER_REFIT_FAILED None i \<in> set L"
      by blast
    have "owner v = local_company s \<longrightarrow>
        (RefitFailed, STR_NEWS_ORDER_REFIT_FAILED, None, i) \<in> set (advice_of L)"
      using l(2) h(2-4) f(1) hd advice_of_mem by simp
    then show ?thesis using m rc l(1) by simp
  qed
  have A: "\<exists>s2 r. depot_arrival e i s = Some (Inr s2) \<and> VehicleEnterDepot e i s = Some r \<and>
            (\<forall>s'. r = Inr s' \<and> order_type (current_order v) = OT_GOTO_DEPOT \<and>
                  \<not> heading_for_another_depot e i v \<and> refit_fails e i s2 \<longrightarrow>
               vehicles_to_autoreplace s' i = Some False \<and>
               (\<exists>L. log s' = log s @ L \<and>
                  (owner v = local_company s \<longrightarrow>
                     (RefitFailed, STR_NEWS_ORDER_REFIT_FAILED, None, i) \<in> set (advice_of L))))"
    using a(1) r A1 by blast
  from autoreplace_entry_log[OF assms(7,9)] obtain t' L where
    e: "autoreplace_entry e i b t = Inr t'" "log t' = log t @ L"
    and ad: "advice_of L =
             (if current_company t2 \<noteq> local_company t2 \<or> Succeeded res then []
              else if GetErrorMessage res = STR_ERROR_AUTOREPLACE_NOTHING_TO_DO \<or>
                      GetErrorMessage res = INVALID_STRING_ID then []
              else if GetErrorMessage res = STR_ERROR_NOT_ENOUGH_CASH_REQUIRES_CURRENCY
              then [(AutorenewFailed, STR_NEWS_VEHICLE_AUTORENEW_FAILED, Some STR_ERROR_AUTOREPLACE_MONEY_LIMIT, i)]
              else if GetErrorMessage res = STR_ERROR_TRAIN_TOO_LONG_AFTER_REPLACEMENT
              then [(AutorenewFailed, STR_ERROR_TRAIN_TOO_LONG_AFTER_REPLACEMENT, None, i)]
              else [(AutorenewFailed, STR_NEWS_VEHICLE_AUTORENEW_FAILED, Some (GetErrorMessage res), i)])"
    by blast
  have p: "autoreplace_pass e (i # js) t = autoreplace_pass e js t'" for js
    using assms(8) e(1) by simp
  have B: "\<exists>t' L. autoreplace_entry e i b t = Inr t' \<and>
            (\<forall>js. autoreplace_pass e (i # js) t = autoreplace_pass e js t') \<and>
            log t' = log t @ L \<and>
            advice_of L =
              (if current_company t2 \<noteq> local_company t2 then []
               else if GetErrorMessage res = STR_ERROR_AUTOREPLACE_NOTHING_TO_DO \<or>
                       GetErrorMessage res = INVALID_STRING_ID then []
               else if GetErrorMessage res = STR_ERROR_NOT_ENOUGH_CASH_REQUIRES_CURRENCY
               then [(AutorenewFailed, STR_NEWS_VEHICLE_AUTORENEW_FAILED,
                      Some STR_ERROR_AUTOREPLACE_MONEY_LIMIT, i)]
               else if GetErrorMessage res = STR_ERROR_TRAIN_TOO_LONG_AFTER_REPLACEMENT
               then [(AutorenewFailed, STR_ERROR_TRAIN_TOO_LONG_AFTER_REPLACEMENT, None, i)]
               else [(AutorenewFailed, STR_NEWS_VEHICLE_AUTORENEW_FAILED,
                      Some (GetErrorMessage res), i)])"
    using e p ad assms(10) by (intro exI[of _ t'] exI[of _ L]) simp
  have C: "\<exists>t' L. ticks_autoreplace e t = Inr t' \<and> log t' = log t @ L \<and>
               map fst (autoreplaces_of L) =
                 filter (\<lambda>j. j \<in> dom (vehicles_to_autoreplace t)) [0 ..< MAX_SIZE e]"
    if fr: "autoreplace_frame e"
      and val: "\<forall>j<MAX_SIZE e. vehicles_to_autoreplace t j \<noteq> None \<longrightarrow> vehicles t j \<noteq> None"
  proof -
    have "\<forall>j\<in>set [0 ..< MAX_SIZE e]. vehicles_to_autoreplace t j \<noteq> None \<longrightarrow> vehicles t j \<noteq> None"
      using val by simp
    from autoreplace_pass_log[OF fr distinct_upt this] obtain t1 L where
      q: "autoreplace_pass e [0 ..< MAX_SIZE e] t = Inr t1" "log t1 = log t @ L"
        "map fst (autoreplaces_of L) =
           filter (\<lambda>j. j \<in> dom (vehicles_to_autoreplace t)) [0 ..< MAX_SIZE e]"
      by blast
    have "ticks_autoreplace e t = Inr (t1\<lparr>current_company := current_company t\<rparr>)"
      using q(1) by (simp add: ticks_autoreplace_def)
    then show ?thesis using q(2,3) by simp
  qed
  show ?thesis using A B C by blast
qed

lemma queued_world_facts:
  "vehicles (queued_world c) 0 = Some ((Vehicle_new 0 VEH_ROAD)\<lparr>owner := c\<rparr>)"
  "vehicles_to_autoreplace (queued_world c) 0 = Some True"
  "log (queued_world c) = []"
  "local_company (queued_world c) = 0"
  by (simp_all add: queued_world_def empty_world_def)

lemma queued_world_dom: "dom (vehicles_to_autoreplace (queued_world c)) = {0, 1}"
  by (auto simp add: queued_world_def empty_world_def)

lemma queued_world_valid:
  "vehicles_to_autoreplace (queued_world c) j \<noteq> None \<longrightarrow> vehicles (queued_world c) j \<noteq> None"
  by (simp add: queued_world_def empty_world_def)

lemma refit_world_facts:
  "vehicles refit_world 0 = Some ((Vehicle_new 0 VEH_ROAD)
        \<lparr>current_order := \<lparr>order_type = OT_GOTO_DEPOT, depot_order_type = {},
                           depot_action_type = {}, load_type = {},
                           refit_cargo = Some 3, destination = 0\<rparr>\<rparr>)"
  "consist (vehicles refit_world) (Some 0) [0]"
  "log refit_world = []"
  "local_company refit_world = 0"
  by (simp_all add: refit_world_def empty_world_def Vehicle_new_def)

text \<open>
  A vehicle of the local company whose refit fails: the entry is false and the advice is
  in the log. Two queued vehicles of the local company whose autoreplace fails for lack of
  cash: the money limit advice is produced for the first, and the command is called for
  both.
\<close>

theorem autoreplace_failure_handling_witness:
  "(\<exists>s'. VehicleEnterDepot (failing_env (STR_OTHER 7)) 0 refit_world = Some (Inr s') \<and>
      vehicles_to_autoreplace s' 0 = Some False \<and>
      (RefitFailed, STR_NEWS_ORDER_REFIT_FAILED, None, 0) \<in> set (advice_of (log s'))) \<and>
   (\<exists>t'. autoreplace_entry (failing_env STR_ERROR_NOT_ENOUGH_CASH_REQUIRES_CURRENCY) 0 True (queued_world 0) = Inr t' \<and>
      advice_of (log t') =
        [(AutorenewFailed, STR_NEWS_VEHICLE_AUTORENEW_FAILED, Some STR_ERROR_AUTOREPLACE_MONEY_LIMIT, 0)]) \<and>
   (\<exists>t'. ticks_autoreplace (failing_env STR_ERROR_NOT_ENOUGH_CASH_REQUIRES_CURRENCY) (queued_world 0) = Inr t' \<and>
      map fst (autoreplaces_of (log t')) = [0, 1])"
proof -
  define e1 where "e1 = failing_env (STR_OTHER 7)"
  define e2 where "e2 = failing_env STR_ERROR_NOT_ENOUGH_CASH_REQUIRES_CURRENCY"
  define v where "v = (Vehicle_new 0 VEH_ROAD)
        \<lparr>current_order := \<lparr>order_type = OT_GOTO_DEPOT, depot_order_type = {},
                           depot_action_type = {}, load_type = {},
                           refit_cargo = Some 3, destination = 0\<rparr>\<rparr>"
  define w where "w = (Vehicle_new 0 VEH_ROAD)\<lparr>owner := 0\<rparr>"
  from refit_world_enters[of "STR_OTHER 7"] obtain s' where
    en: "VehicleEnterDepot e1 0 refit_world = Some (Inr s')" unfolding e1_def by blast
  from refit_world_arrives[of "STR_OTHER 7"] obtain s2 where
    ar: "depot_arrival e1 0 refit_world = Some (Inr s2)" "refit_fails e1 0 s2"
    unfolding e1_def by blast
  have vf: "first v = Some 0" "type v = VEH_ROAD" "order_type (current_order v) = OT_GOTO_DEPOT"
    "\<not> heading_for_another_depot e1 0 v" "\<not> heading_for_another_depot e2 0 v"
    "owner v = 0" "nextv v = None"
    by (simp_all add: v_def Vehicle_new_def heading_for_another_depot_def)
  have wf: "owner w = 0" by (simp add: w_def)
  have fr: "refit_frame e1" "refit_frame e2" "autoreplace_frame e2"
    by (simp_all add: e1_def e2_def refit_frame_failing autoreplace_frame_failing)
  have qv: "\<forall>j<MAX_SIZE e2. vehicles_to_autoreplace (queued_world 0) j \<noteq> None \<longrightarrow>
      vehicles (queued_world 0) j \<noteq> None"
    using queued_world_valid by blast
  have c1: "CmdAutoreplaceVehicle e1 0 (autoreplace_prepare e1 0 True w (queued_world 0)) =
      (CommandCost False 0 (STR_OTHER 7), autoreplace_prepare e1 0 True w (queued_world 0))"
    by (simp add: e1_def failing_env_def idle_env_def)
  have c2: "CmdAutoreplaceVehicle e2 0 (autoreplace_prepare e2 0 True w (queued_world 0)) =
      (CommandCost False 0 STR_ERROR_NOT_ENOUGH_CASH_REQUIRES_CURRENCY,
       autoreplace_prepare e2 0 True w (queued_world 0))"
    by (simp add: e2_def failing_env_def idle_env_def)
  have m2: "MAX_SIZE e2 = 4" by (simp add: e2_def failing_env_def idle_env_def)
  have a: "\<exists>s'. VehicleEnterDepot e1 0 refit_world = Some (Inr s') \<and>
      vehicles_to_autoreplace s' 0 = Some False \<and>
      (RefitFailed, STR_NEWS_ORDER_REFIT_FAILED, None, 0) \<in> set (advice_of (log s'))"
    using autoreplace_failure_handling[of refit_world 0 v "[0]" e1 "queued_world 0" w
        True "CommandCost False 0 (STR_OTHER 7)" "autoreplace_prepare e1 0 True w (queued_world 0)"]
      en ar vf c1 fr
    by (simp add: refit_world_facts queued_world_facts v_def[symmetric] w_def[symmetric])
  have b: "(\<exists>t'. autoreplace_entry e2 0 True (queued_world 0) = Inr t' \<and>
      advice_of (log t') =
        [(AutorenewFailed, STR_NEWS_VEHICLE_AUTORENEW_FAILED, Some STR_ERROR_AUTOREPLACE_MONEY_LIMIT, 0)]) \<and>
   (\<exists>t'. ticks_autoreplace e2 (queued_world 0) = Inr t' \<and>
      map fst (autoreplaces_of (log t')) = [0, 1])"
    using autoreplace_failure_handling[of refit_world 0 v "[0]" e2 "queued_world 0" w
        True "CommandCost False 0 STR_ERROR_NOT_ENOUGH_CASH_REQUIRES_CURRENCY"
        "autoreplace_prepare e2 0 True w (queued_world 0)"]
      vf wf c2 m2 fr qv
    by (simp add: refit_world_facts queued_world_facts queued_world_dom v_def[symmetric]
        w_def[symmetric] upt_4 autoreplace_prepare_frame) blast
  show ?thesis using a b unfolding e1_def e2_def by blast
qed

text \<open>
  The claim as it was stated fails for a company that is not the local company: the
  autoreplace commands of its two queued vehicles fail with a message that is none of the
  three special ones, and no advice is produced.
\<close>

theorem autoreplace_failure_handling_counterexample:
  "fst (CmdAutoreplaceVehicle (failing_env (STR_OTHER 7)) 0 (queued_world 1)) =
     CommandCost False 0 (STR_OTHER 7) \<and>
   (case ticks_autoreplace (failing_env (STR_OTHER 7)) (queued_world 1) of
      Inl err \<Rightarrow> None
    | Inr s' \<Rightarrow> Some (autoreplaces_of (log s'), advice_of (log s'))) =
     Some ([(0, 1, 1), (1, 1, 1)], [])"
  by (simp add: ticks_autoreplace_def upt_4 autoreplace_entry_def autoreplace_prepare_def
      autoreplace_report_def call_def emit_def put_vehicle_def Let_def
      failing_env_def idle_env_def queued_world_def empty_world_def Vehicle_new_def)

end
